theory Spec2Isabelle
  imports Complex_Main
begin

section \<open>The event loop's timers\<close>

text \<open>
  \<^verbatim>\<open>setTimeout\<close> and \<^verbatim>\<open>clearTimeout\<close> of the JavaScript runtime. The event loop holds
  the timeouts that are armed and have neither fired nor been cleared, each with its
  handle and its delay in milliseconds; \<open>fresh\<close> is the next handle the runtime hands
  out. Clearing a handle that is not pending (it fired, or was cleared before) does
  nothing, as in the runtime.
\<close>

type_synonym handle = nat

record timers =
  pending :: "(handle \<times> nat) list"
  fresh :: handle

definition noTimers :: timers where
  "noTimers = \<lparr>pending = [], fresh = 0\<rparr>"

definition setTimeout :: "nat \<Rightarrow> timers \<Rightarrow> handle \<times> timers" where
  "setTimeout delay t =
     (fresh t, \<lparr>pending = pending t @ [(fresh t, delay)], fresh = Suc (fresh t)\<rparr>)"

definition clearTimeout :: "handle \<Rightarrow> timers \<Rightarrow> timers" where
  "clearTimeout h t = t\<lparr>pending := filter (\<lambda>p. fst p \<noteq> h) (pending t)\<rparr>"

definition isPending :: "handle \<Rightarrow> timers \<Rightarrow> bool" where
  "isPending h t = (h \<in> fst ` set (pending t))"

text \<open>The outcome of an awaited promise, and of an awaited I/O operation.\<close>

datatype promise = Resolved | Rejected

datatype io = Succeeds | Fails

section \<open>The notification listener (createNotificationListener)\<close>

text \<open>
  The closure variables of \<^verbatim>\<open>createNotificationListener\<close>: \<^verbatim>\<open>client\<close>
  (\<open>None\<close> is \<^verbatim>\<open>null\<close>), \<^verbatim>\<open>connected\<close>, \<^verbatim>\<open>connectionAttempts\<close> and
  \<^verbatim>\<open>reconnectTimeout\<close> (\<open>None\<close> is \<^verbatim>\<open>null\<close>), together with the state of the
  runtime the listener lives in: the event loop that holds its timeouts, and the
  number of calls of \<^verbatim>\<open>connect()\<close> and of \<^verbatim>\<open>disconnect()\<close> that have reached an
  \<^verbatim>\<open>await\<close> and not yet resumed (\<open>connecting\<close>, \<open>disconnecting\<close>). \<^verbatim>\<open>connect()\<close> and
  \<^verbatim>\<open>disconnect()\<close> are \<^verbatim>\<open>async\<close>: each runs up to its first \<^verbatim>\<open>await\<close> when it is
  called and resumes later, after whatever the event loop runs in between, so that
  several calls can be under way at once, all on the same variables.
\<close>

datatype Client = Client

record listener =
  client :: "Client option"
  connected :: bool
  connectionAttempts :: nat
  reconnectTimeout :: "handle option"
  loop :: timers
  connecting :: nat
  disconnecting :: nat

definition createNotificationListener :: listener where
  "createNotificationListener =
     \<lparr>client = None, connected = False, connectionAttempts = 0,
      reconnectTimeout = None, loop = noTimers, connecting = 0, disconnecting = 0\<rparr>"

text \<open>
  \<^verbatim>\<open>Math.min(1000 * Math.pow(2, connectionAttempts - 1), 30000)\<close>. For a counter of at
  least one the power is a whole number and the value is computed on naturals; for a
  counter of zero JavaScript computes \<open>1000 * 2\<^sup>-\<^sup>1 = 500\<close>, where truncating
  subtraction would give 1000, so that case is written out.
\<close>

definition backoffDelay :: "nat \<Rightarrow> nat" where
  "backoffDelay attempts =
     (if attempts = 0 then 500 else min (1000 * 2 ^ (attempts - 1)) 30000)"

text \<open>
  \<^verbatim>\<open>handleReconnect(delay)\<close>: clear the timeout the variable holds, if any, and arm a
  new one. (The callback the timeout runs is the event \<open>TimeoutFires\<close> below.)
\<close>

definition handleReconnect :: "nat \<Rightarrow> listener \<Rightarrow> listener" where
  "handleReconnect delay s =
     (let lp = (case reconnectTimeout s of
                  Some h \<Rightarrow> clearTimeout h (loop s)
                | None \<Rightarrow> loop s);
          (h', lp') = setTimeout delay lp
      in s\<lparr>reconnectTimeout := Some h', loop := lp'\<rparr>)"

text \<open>
  \<^verbatim>\<open>connect()\<close>, cut where the source awaits. \<open>connectBegin\<close> is the part between the
  test of \<^verbatim>\<open>connected\<close> and the first \<^verbatim>\<open>await\<close>: it counts the attempt and makes the
  client. The two awaited operations (\<^verbatim>\<open>client.connect()\<close>, then the \<^verbatim>\<open>LISTEN\<close>
  query) either both succeed or one of them fails, and both failures reach the same
  \<^verbatim>\<open>catch\<close>. \<open>connectResolved\<close> is the rest of the \<^verbatim>\<open>try\<close>. \<open>connectRejected\<close> is the
  \<^verbatim>\<open>catch\<close>: it awaits \<^verbatim>\<open>client.end()\<close> when \<^verbatim>\<open>client\<close> is set (a failure of which
  is ignored), and every assignment of the \<^verbatim>\<open>catch\<close>, and its reading of
  \<^verbatim>\<open>connectionAttempts\<close>, comes after that await in one piece; \<^verbatim>\<open>client\<close> is
  \<^verbatim>\<open>null\<close> afterwards either way. Both read the variables as they are when the call
  resumes, not as they were when it was made.
\<close>

datatype connectIO = Listening | ConnectFails | ListenFails

definition connectBegin :: "listener \<Rightarrow> listener" where
  "connectBegin s =
     s\<lparr>connectionAttempts := connectionAttempts s + 1, client := Some Client\<rparr>"

definition connectResolved :: "listener \<Rightarrow> listener" where
  "connectResolved s = s\<lparr>connected := True, connectionAttempts := 0\<rparr>"

definition connectRejected :: "listener \<Rightarrow> listener" where
  "connectRejected s =
     (let s1 = s\<lparr>client := None, connected := False\<rparr>;
          delay = backoffDelay (connectionAttempts s1)
      in handleReconnect delay s1)"

text \<open>\<^verbatim>\<open>handleDisconnect()\<close>, which the client's \<^verbatim>\<open>error\<close> event runs.\<close>

definition handleDisconnect :: "listener \<Rightarrow> listener" where
  "handleDisconnect s =
     (if \<not> connected s then s
      else
        let s1 = s\<lparr>connected := False\<rparr>;
            s2 = s1\<lparr>client := None\<rparr>;
            s3 = s2\<lparr>connectionAttempts := connectionAttempts s2 + 1\<rparr>;
            delay = backoffDelay (connectionAttempts s3)
        in handleReconnect delay s3)"

text \<open>
  \<^verbatim>\<open>disconnect()\<close>, cut where the source awaits. \<open>disconnectBegin\<close> is the part before
  the first \<^verbatim>\<open>await\<close>: it clears the retry timeout and returns at once (\<open>Some Resolved\<close>)
  when the listener is not connected or has no client; otherwise the call goes on to
  await the \<^verbatim>\<open>UNLISTEN\<close> query and \<^verbatim>\<open>client.end()\<close> (\<open>None\<close>: not settled yet).
  \<open>disconnectEnd\<close> is what runs when the awaited operations are over: the two
  assignments that end the \<^verbatim>\<open>try\<close>, or the \<^verbatim>\<open>catch\<close>, which forces the same
  values and rethrows.
\<close>

definition disconnectBegin :: "listener \<Rightarrow> promise option \<times> listener" where
  "disconnectBegin s =
     (let s1 = (case reconnectTimeout s of
                  Some h \<Rightarrow> s\<lparr>loop := clearTimeout h (loop s), reconnectTimeout := None\<rparr>
                | None \<Rightarrow> s)
      in if \<not> connected s1 \<or> client s1 = None then (Some Resolved, s1) else (None, s1))"

definition disconnectEnd :: "io \<Rightarrow> listener \<Rightarrow> promise \<times> listener" where
  "disconnectEnd outcome s =
     (case outcome of
        Succeeds \<Rightarrow> (Resolved, s\<lparr>connected := False, client := None\<rparr>)
      | Fails \<Rightarrow> (Rejected, s\<lparr>client := None, connected := False\<rparr>))"

text \<open>
  What the event loop runs on a listener, one piece at a time: a call of
  \<^verbatim>\<open>connect()\<close> up to its first await (it returns at once when \<^verbatim>\<open>connected\<close> is set),
  the settling of a connect that is under way (the rest of its \<^verbatim>\<open>try\<close>, or its
  \<^verbatim>\<open>catch\<close>), an \<^verbatim>\<open>error\<close> event of a client (a transport error), a call of
  \<^verbatim>\<open>disconnect()\<close> up to its first await, the settling of a disconnect that is under
  way, and the firing of a timeout. The callback of the timeout runs only when the
  event loop fires a pending timeout, which is then no longer pending; the
  \<^verbatim>\<open>connect()\<close> it starts is not awaited. Nothing settles when no call is under way.
\<close>

datatype listenerEvent =
    ConnectCalled
  | ConnectSettled connectIO
  | ErrorEvent
  | DisconnectCalled
  | DisconnectSettled io
  | TimeoutFires handle

fun listenerStep :: "listenerEvent \<Rightarrow> listener \<Rightarrow> listener" where
  "listenerStep ConnectCalled s =
     (if connected s then s
      else (connectBegin s)\<lparr>connecting := connecting s + 1\<rparr>)"
| "listenerStep (ConnectSettled outcome) s =
     (if connecting s = 0 then s
      else
        let s1 = s\<lparr>connecting := connecting s - 1\<rparr>
        in (case outcome of
              Listening \<Rightarrow> connectResolved s1
            | ConnectFails \<Rightarrow> connectRejected s1
            | ListenFails \<Rightarrow> connectRejected s1))"
| "listenerStep ErrorEvent s = handleDisconnect s"
| "listenerStep DisconnectCalled s =
     (case disconnectBegin s of
        (Some settled, s1) \<Rightarrow> s1
      | (None, s1) \<Rightarrow> s1\<lparr>disconnecting := disconnecting s1 + 1\<rparr>)"
| "listenerStep (DisconnectSettled outcome) s =
     (if disconnecting s = 0 then s
      else snd (disconnectEnd outcome (s\<lparr>disconnecting := disconnecting s - 1\<rparr>)))"
| "listenerStep (TimeoutFires h) s =
     (if \<not> isPending h (loop s) then s
      else
        let s1 = s\<lparr>loop := clearTimeout h (loop s)\<rparr>;
            s2 = s1\<lparr>reconnectTimeout := None\<rparr>
        in if \<not> connected s2 then (connectBegin s2)\<lparr>connecting := connecting s2 + 1\<rparr>
           else s2)"

fun listenerRun :: "listenerEvent list \<Rightarrow> listener \<Rightarrow> listener" where
  "listenerRun [] s = s"
| "listenerRun (ev # evs) s = listenerRun evs (listenerStep ev s)"

text \<open>
  A connection failure is a connect attempt that settles with a failure, or a transport
  error on an established connection; a success is a connect attempt that settles
  listening.
\<close>

fun isFailure :: "listenerEvent \<Rightarrow> listener \<Rightarrow> bool" where
  "isFailure (ConnectSettled outcome) s = (0 < connecting s \<and> outcome \<noteq> Listening)"
| "isFailure ErrorEvent s = connected s"
| "isFailure ConnectCalled s = False"
| "isFailure DisconnectCalled s = False"
| "isFailure (DisconnectSettled outcome) s = False"
| "isFailure (TimeoutFires h) s = False"

fun isSuccess :: "listenerEvent \<Rightarrow> listener \<Rightarrow> bool" where
  "isSuccess (ConnectSettled outcome) s = (0 < connecting s \<and> outcome = Listening)"
| "isSuccess ErrorEvent s = False"
| "isSuccess ConnectCalled s = False"
| "isSuccess DisconnectCalled s = False"
| "isSuccess (DisconnectSettled outcome) s = False"
| "isSuccess (TimeoutFires h) s = False"

fun countFailures :: "listenerEvent list \<Rightarrow> listener \<Rightarrow> nat" where
  "countFailures [] s = 0"
| "countFailures (ev # evs) s =
     (if isFailure ev s then 1 else 0) + countFailures evs (listenerStep ev s)"

fun noSuccess :: "listenerEvent list \<Rightarrow> listener \<Rightarrow> bool" where
  "noSuccess [] s = True"
| "noSuccess (ev # evs) s = (\<not> isSuccess ev s \<and> noSuccess evs (listenerStep ev s))"

text \<open>
  Connect attempts do not overlap along a sequence of events when at no moment more
  than one call of \<^verbatim>\<open>connect()\<close> is under way: each attempt settles before the next
  one begins.
\<close>

fun noOverlap :: "listenerEvent list \<Rightarrow> listener \<Rightarrow> bool" where
  "noOverlap [] s = (connecting s \<le> 1)"
| "noOverlap (ev # evs) s = (connecting s \<le> 1 \<and> noOverlap evs (listenerStep ev s))"

text \<open>The delay of the retry the listener has scheduled, if one is pending.\<close>

definition scheduledDelay :: "listener \<Rightarrow> nat option" where
  "scheduledDelay s =
     (case reconnectTimeout s of
        None \<Rightarrow> None
      | Some h \<Rightarrow> map_of (pending (loop s)) h)"

section \<open>JavaScript values\<close>

text \<open>
  The values \<^verbatim>\<open>JSON.parse\<close> returns, and \<^verbatim>\<open>undefined\<close>, which reading a missing
  property gives. Numbers are rationals. \<open>truthy\<close> is JavaScript's conversion to a
  boolean, which \<^verbatim>\<open>||\<close> and \<^verbatim>\<open>?:\<close> apply.
\<close>

datatype jsval =
    JUndefined
  | JNull
  | JBool bool
  | JNum rat
  | JStr string
  | JArr "jsval list"
  | JObj "(string \<times> jsval) list"

fun truthy :: "jsval \<Rightarrow> bool" where
  "truthy JUndefined = False"
| "truthy JNull = False"
| "truthy (JBool b) = b"
| "truthy (JNum n) = (n \<noteq> 0)"
| "truthy (JStr s) = (s \<noteq> [])"
| "truthy (JArr xs) = True"
| "truthy (JObj kvs) = True"

datatype jsError = SyntaxError | TypeError | RangeError | HandlerThrows

section \<open>Change events (types)\<close>

datatype OperationType = INSERT | UPDATE | DELETE | REPLACE | DROP | TRUNCATE | UNKNOWN

text \<open>
  The interface \<^verbatim>\<open>ChangeEvent\<close>. The type parameter is the type of the values the
  adapter copies from the payload without a check (\<^verbatim>\<open>id\<close>, \<^verbatim>\<open>source.table\<close>,
  \<^verbatim>\<open>source.schema\<close>): a string by the interface's declaration, which the orchestrator
  relies on, and any JavaScript value where the adapter builds the event from parsed
  JSON. \<open>data_new\<close> and \<open>data_old\<close> are \<^verbatim>\<open>data.new\<close> and \<^verbatim>\<open>data.old\<close>; the
  value \<open>JUndefined\<close> there stands for an omitted field. \<^verbatim>\<open>database.type\<close> is
  always \<^verbatim>\<open>postgresql\<close> and is left out.
\<close>

record 'a ChangeEvent =
  ev_id :: 'a
  timestamp :: string
  operation :: OperationType
  database_name :: string
  source_table :: 'a
  source_schema :: "'a option"
  data_new :: jsval
  data_old :: jsval

type_synonym event = "string ChangeEvent"

section \<open>Delivery sinks (BaseDelivery)\<close>

text \<open>
  What the orchestrator hands to a sink: one event or a batch. A sink is a
  \<^verbatim>\<open>BaseDelivery\<close>: its \<^verbatim>\<open>initialized\<close> flag, and whether the variant's
  \<^verbatim>\<open>deliverEvent\<close> and \<^verbatim>\<open>closeDelivery\<close> resolve. \<^verbatim>\<open>deliver\<close> rejects when the sink is
  not initialized or the variant's send rejects.
\<close>

datatype payload = Single event | Batch "event list"

record sink =
  sinkInitialized :: bool
  deliverEvent_resolves :: "payload \<Rightarrow> bool"
  closeDelivery_resolves :: bool

definition deliver :: "sink \<Rightarrow> payload \<Rightarrow> promise" where
  "deliver d p =
     (if \<not> sinkInitialized d then Rejected
      else if deliverEvent_resolves d p then Resolved else Rejected)"

definition close :: "sink \<Rightarrow> promise \<times> sink" where
  "close d =
     (if \<not> sinkInitialized d then (Resolved, d)
      else if closeDelivery_resolves d then (Resolved, d\<lparr>sinkInitialized := False\<rparr>)
      else (Rejected, d))"

text \<open>\<^verbatim>\<open>Promise.all\<close> resolves when every promise resolves and rejects otherwise.\<close>

definition promiseAll :: "promise list \<Rightarrow> promise" where
  "promiseAll ps = (if list_all (\<lambda>p. p = Resolved) ps then Resolved else Rejected)"

section \<open>Regular expressions of the runtime\<close>

text \<open>
  A \<^verbatim>\<open>RegExp\<close> object: its compiled pattern, taken as given (a matcher that, for a
  string and a start index, returns the end index of a match starting there), the flags
  \<^verbatim>\<open>g\<close> and \<^verbatim>\<open>y\<close>, and the mutable \<^verbatim>\<open>lastIndex\<close>. \<open>regExpSearch\<close> and
  \<open>regExpTest\<close> are \<^verbatim>\<open>RegExp.prototype.test\<close> as ECMAScript defines it
  (RegExpBuiltinExec): the search starts at \<^verbatim>\<open>lastIndex\<close> when the object is global
  or sticky and at 0 otherwise, moves forward one index at a time unless sticky, and a
  global or sticky object stores the end of the match, or 0 after a failure, in
  \<^verbatim>\<open>lastIndex\<close>.
\<close>

type_synonym matcher = "string \<Rightarrow> nat \<Rightarrow> nat option"

record RegExp =
  matcher :: matcher
  global :: bool
  sticky :: bool
  lastIndex :: nat

function regExpSearch :: "matcher \<Rightarrow> bool \<Rightarrow> string \<Rightarrow> nat \<Rightarrow> nat option" where
  "regExpSearch m stick s i =
     (if length s < i then None
      else (case m s i of
              Some e \<Rightarrow> Some e
            | None \<Rightarrow> if stick then None else regExpSearch m stick s (Suc i)))"
  by pat_completeness auto
termination
  by (relation "measure (\<lambda>(m, stick, s, i). Suc (length s) - i)") auto

definition regExpTest :: "RegExp \<Rightarrow> string \<Rightarrow> bool \<times> RegExp" where
  "regExpTest r s =
     (let stateful = (global r \<or> sticky r);
          start = (if stateful then lastIndex r else 0)
      in (case regExpSearch (matcher r) (sticky r) s start of
            None \<Rightarrow> (False, if stateful then r\<lparr>lastIndex := 0\<rparr> else r)
          | Some e \<Rightarrow> (True, if stateful then r\<lparr>lastIndex := e\<rparr> else r)))"

text \<open>
  \<^verbatim>\<open>new RegExp(pattern)\<close>: the runtime's compiler is a parameter of the model, a
  function from the pattern's text to its matcher, or \<open>None\<close> when the text is not a
  regular expression and the constructor throws a \<^verbatim>\<open>SyntaxError\<close>. The new object
  has no flags.
\<close>

type_synonym compiler = "string \<Rightarrow> matcher option"

definition newRegExp :: "compiler \<Rightarrow> string \<Rightarrow> RegExp option" where
  "newRegExp compile text =
     map_option (\<lambda>m. \<lparr>matcher = m, global = False, sticky = False, lastIndex = 0\<rparr>)
       (compile text)"

section \<open>The orchestrator (ChangeNotifier)\<close>

datatype tablePattern = PatternString string | PatternRegExp RegExp

record TransformationConfig =
  tablePattern :: tablePattern
  transform :: "event \<Rightarrow> event option"

record NotifierConfig =
  batchingEnabled :: bool
  batchSize :: "int option"
  batchTimeWindowMs :: "int option"
  transformations :: "TransformationConfig list option"

record NotifierStats =
  eventsProcessed :: nat
  eventsByOperation :: "OperationType \<Rightarrow> nat"
  eventsByTable :: "string \<Rightarrow> nat"
  deliveryAttempts :: nat
  deliverySuccesses :: nat
  deliveryFailures :: nat

text \<open>
  The orchestrator sees its adapter through the interface \<^verbatim>\<open>DatabaseAdapter\<close>: what
  matters to it is whether \<^verbatim>\<open>stop()\<close> and \<^verbatim>\<open>teardownChangeNotifications()\<close> resolve.
\<close>

record DatabaseAdapter =
  stop_resolves :: bool
  teardown_resolves :: bool

text \<open>
  The calls the orchestrator makes on its collaborators, in the order it makes them: a
  fan-out (one \<^verbatim>\<open>Promise.all\<close> over \<^verbatim>\<open>deliver\<close> of every sink, with each sink's
  outcome), the adapter's \<^verbatim>\<open>stop()\<close> and \<^verbatim>\<open>teardownChangeNotifications()\<close>, a sink's
  \<^verbatim>\<open>close()\<close> (the sink's index in \<^verbatim>\<open>deliveryMechanisms\<close>), and a message logged
  with \<^verbatim>\<open>error\<close>.
\<close>

datatype effect =
    FanOut payload "promise list"
  | AdapterStop promise
  | AdapterTeardown promise
  | SinkClose nat promise
  | ErrorLog string

record notifier =
  config :: NotifierConfig
  adapter :: "DatabaseAdapter option"
  deliveryMechanisms :: "sink list"
  isRunning :: bool
  stats :: NotifierStats
  eventBuffer :: "event list"
  batchTimeout :: "handle option"
  timeouts :: timers
  effects :: "effect list"

definition initializeStats :: NotifierStats where
  "initializeStats =
     \<lparr>eventsProcessed = 0, eventsByOperation = (\<lambda>op. 0), eventsByTable = (\<lambda>key. 0),
      deliveryAttempts = 0, deliverySuccesses = 0, deliveryFailures = 0\<rparr>"

text \<open>
  The orchestrator once \<^verbatim>\<open>initialize()\<close> has resolved: the adapter is set, the sinks
  are initialized, nothing is buffered.
\<close>

definition running :: "NotifierConfig \<Rightarrow> DatabaseAdapter \<Rightarrow> sink list \<Rightarrow> notifier" where
  "running cfg a sinks =
     \<lparr>config = cfg, adapter = Some a, deliveryMechanisms = sinks, isRunning = True,
      stats = initializeStats, eventBuffer = [], batchTimeout = None,
      timeouts = noTimers, effects = []\<rparr>"

definition updateEventStats :: "event \<Rightarrow> notifier \<Rightarrow> notifier" where
  "updateEventStats ev s =
     (let st = stats s;
          tableKey = (case source_schema ev of None \<Rightarrow> [] | Some sch \<Rightarrow> sch)
                       @ ''.'' @ source_table ev
      in s\<lparr>stats := st\<lparr>eventsProcessed := eventsProcessed st + 1,
                         eventsByOperation := (eventsByOperation st)
                           (operation ev := eventsByOperation st (operation ev) + 1),
                         eventsByTable := (eventsByTable st)
                           (tableKey := eventsByTable st tableKey + 1)\<rparr>\<rparr>)"

text \<open>
  \<^verbatim>\<open>applyTransformations\<close>. The loop tests every pattern against the table of the
  incoming event (\<^verbatim>\<open>event.source.table\<close>, not the current event's), hands the current
  event to the transform of a matching entry, and returns \<^verbatim>\<open>null\<close> (\<open>None\<close>) as soon
  as a transform does. A pattern given as a string is compiled on every pass; a
  \<^verbatim>\<open>RegExp\<close> object is used as it is, so what \<^verbatim>\<open>test\<close> stores in it stays in the
  configuration: the function returns the configuration's entries as the pass leaves
  them.
\<close>

definition testPattern ::
  "compiler \<Rightarrow> tablePattern \<Rightarrow> string \<Rightarrow> jsError + (bool \<times> tablePattern)" where
  "testPattern compile pat tbl =
     (case pat of
        PatternRegExp r \<Rightarrow>
          (let (m, r') = regExpTest r tbl in Inr (m, PatternRegExp r'))
      | PatternString text \<Rightarrow>
          (case newRegExp compile text of
             None \<Rightarrow> Inl SyntaxError
           | Some r \<Rightarrow> Inr (fst (regExpTest r tbl), PatternString text)))"

fun transformLoop ::
  "compiler \<Rightarrow> string \<Rightarrow> TransformationConfig list \<Rightarrow> event
     \<Rightarrow> (jsError + event option) \<times> TransformationConfig list" where
  "transformLoop compile tbl [] currentEvent = (Inr (Some currentEvent), [])"
| "transformLoop compile tbl (t # ts) currentEvent =
     (case testPattern compile (tablePattern t) tbl of
        Inl e \<Rightarrow> (Inl e, t # ts)
      | Inr (matches, pat') \<Rightarrow>
          (let t' = t\<lparr>tablePattern := pat'\<rparr>
           in if matches then
                (case transform t currentEvent of
                   None \<Rightarrow> (Inr None, t' # ts)
                 | Some result \<Rightarrow>
                     (let (out, ts') = transformLoop compile tbl ts result
                      in (out, t' # ts')))
              else (let (out, ts') = transformLoop compile tbl ts currentEvent
                    in (out, t' # ts'))))"

definition applyTransformations ::
  "compiler \<Rightarrow> TransformationConfig list option \<Rightarrow> event
     \<Rightarrow> (jsError + event option) \<times> TransformationConfig list option" where
  "applyTransformations compile cfg ev =
     (case cfg of
        None \<Rightarrow> (Inr (Some ev), None)
      | Some ts \<Rightarrow>
          if ts = [] then (Inr (Some ev), Some [])
          else (let (out, ts') = transformLoop compile (source_table ev) ts ev
                in (out, Some ts')))"

text \<open>
  The \<^verbatim>\<open>try\<close>/\<^verbatim>\<open>catch\<close> that \<^verbatim>\<open>deliverEvent\<close> and \<^verbatim>\<open>deliverBatch\<close> both
  contain: \<^verbatim>\<open>deliver\<close> is called on every sink, the promises are awaited together,
  and the counters are updated in the \<^verbatim>\<open>try\<close> or in the \<^verbatim>\<open>catch\<close>, which also logs
  the failure.
\<close>

definition fanOut :: "string \<Rightarrow> payload \<Rightarrow> notifier \<Rightarrow> notifier" where
  "fanOut failureMessage p s =
     (let outcomes = map (\<lambda>d. deliver d p) (deliveryMechanisms s);
          s1 = s\<lparr>effects := effects s @ [FanOut p outcomes]\<rparr>;
          st = stats s1
      in (case promiseAll outcomes of
            Resolved \<Rightarrow>
              s1\<lparr>stats := st\<lparr>deliveryAttempts := deliveryAttempts st + 1,
                               deliverySuccesses := deliverySuccesses st + 1\<rparr>\<rparr>
          | Rejected \<Rightarrow>
              s1\<lparr>stats := st\<lparr>deliveryAttempts := deliveryAttempts st + 1,
                               deliveryFailures := deliveryFailures st + 1\<rparr>,
                 effects := effects s1 @ [ErrorLog failureMessage]\<rparr>))"

definition deliverEvent :: "event \<Rightarrow> notifier \<Rightarrow> notifier" where
  "deliverEvent ev s = fanOut ''Failed to deliver event'' (Single ev) s"

definition deliverBatch :: "notifier \<Rightarrow> notifier" where
  "deliverBatch s =
     (let s1 = (case batchTimeout s of
                  Some h \<Rightarrow> s\<lparr>timeouts := clearTimeout h (timeouts s), batchTimeout := None\<rparr>
                | None \<Rightarrow> s)
      in if eventBuffer s1 = [] then s1
         else (let batchToDeliver = eventBuffer s1;
                   s2 = s1\<lparr>eventBuffer := []\<rparr>
               in fanOut ''Failed to deliver batch of events'' (Batch batchToDeliver) s2))"

text \<open>
  \<^verbatim>\<open>config.batchSize || 100\<close> and \<^verbatim>\<open>config.batchTimeWindowMs || 1000\<close>: the default
  replaces a missing value and the value 0.
\<close>

definition orDefault :: "int option \<Rightarrow> int \<Rightarrow> int" where
  "orDefault v d = (case v of None \<Rightarrow> d | Some n \<Rightarrow> if n = 0 then d else n)"

definition bufferEvent :: "event \<Rightarrow> notifier \<Rightarrow> notifier" where
  "bufferEvent ev s =
     (let s1 = s\<lparr>eventBuffer := eventBuffer s @ [ev]\<rparr>
      in if orDefault (batchSize (config s1)) 100 \<le> int (length (eventBuffer s1))
         then deliverBatch s1
         else if batchTimeout s1 = None \<and> 0 < length (eventBuffer s1)
         then (let (h, t) = setTimeout (nat (orDefault (batchTimeWindowMs (config s1)) 1000))
                              (timeouts s1)
               in s1\<lparr>batchTimeout := Some h, timeouts := t\<rparr>)
         else s1)"

definition processEvent :: "compiler \<Rightarrow> event \<Rightarrow> notifier \<Rightarrow> promise \<times> notifier" where
  "processEvent compile ev s =
     (let s1 = updateEventStats ev s;
          (out, ts') = applyTransformations compile (transformations (config s1)) ev;
          s2 = s1\<lparr>config := (config s1)\<lparr>transformations := ts'\<rparr>\<rparr>
      in (case out of
            Inl e \<Rightarrow> (Rejected, s2)
          | Inr None \<Rightarrow> (Resolved, s2)
          | Inr (Some transformedEvent) \<Rightarrow>
              if batchingEnabled (config s2)
              then (Resolved, bufferEvent transformedEvent s2)
              else (Resolved, deliverEvent transformedEvent s2)))"

text \<open>The callback of the batch timeout, run when the event loop fires it.\<close>

definition batchTimerFires :: "handle \<Rightarrow> notifier \<Rightarrow> notifier" where
  "batchTimerFires h s =
     (if \<not> isPending h (timeouts s) then s
      else deliverBatch (s\<lparr>timeouts := clearTimeout h (timeouts s)\<rparr>))"

text \<open>
  What happens to a running orchestrator: the adapter hands it an event, or the event
  loop fires a timeout.
\<close>

datatype notifierEvent = Incoming event | BatchTimer handle

fun notifierStep :: "compiler \<Rightarrow> notifierEvent \<Rightarrow> notifier \<Rightarrow> notifier" where
  "notifierStep compile (Incoming ev) s = snd (processEvent compile ev s)"
| "notifierStep compile (BatchTimer h) s = batchTimerFires h s"

fun notifierRun :: "compiler \<Rightarrow> notifierEvent list \<Rightarrow> notifier \<Rightarrow> notifier" where
  "notifierRun compile [] s = s"
| "notifierRun compile (e # es) s = notifierRun compile es (notifierStep compile e s)"

fun bufferAll :: "event list \<Rightarrow> notifier \<Rightarrow> notifier" where
  "bufferAll [] s = s"
| "bufferAll (ev # evs) s = bufferAll evs (bufferEvent ev s)"

text \<open>The fan-outs among the calls made, each with its payload and the sinks' outcomes.\<close>

fun fanOuts :: "effect list \<Rightarrow> (payload \<times> promise list) list" where
  "fanOuts [] = []"
| "fanOuts (FanOut p outcomes # fx) = (p, outcomes) # fanOuts fx"
| "fanOuts (other # fx) = fanOuts fx"

definition succeeded :: "payload \<times> promise list \<Rightarrow> bool" where
  "succeeded call = list_all (\<lambda>outcome. outcome = Resolved) (snd call)"

text \<open>
  \<^verbatim>\<open>cleanup()\<close>: the pending batch, the adapter (one \<^verbatim>\<open>try\<close> around \<^verbatim>\<open>stop()\<close> and
  \<^verbatim>\<open>teardownChangeNotifications()\<close>), every sink's \<^verbatim>\<open>close()\<close> (a \<^verbatim>\<open>try\<close> of its
  own for each), the batch timeout.
\<close>

definition cleanupAdapter :: "notifier \<Rightarrow> notifier" where
  "cleanupAdapter s =
     (case adapter s of
        None \<Rightarrow> s
      | Some a \<Rightarrow>
          (let s1 = s\<lparr>effects := effects s
                       @ [AdapterStop (if stop_resolves a then Resolved else Rejected)]\<rparr>;
               s2 = (if \<not> stop_resolves a
                     then s1\<lparr>effects := effects s1 @ [ErrorLog ''Error during adapter cleanup'']\<rparr>
                     else if teardown_resolves a
                     then s1\<lparr>effects := effects s1 @ [AdapterTeardown Resolved]\<rparr>
                     else s1\<lparr>effects := effects s1
                            @ [AdapterTeardown Rejected, ErrorLog ''Error during adapter cleanup'']\<rparr>)
           in s2\<lparr>adapter := None\<rparr>))"

fun closeAll :: "nat \<Rightarrow> sink list \<Rightarrow> effect list" where
  "closeAll i [] = []"
| "closeAll i (d # ds) =
     (case fst (close d) of
        Resolved \<Rightarrow> [SinkClose i Resolved]
      | Rejected \<Rightarrow> [SinkClose i Rejected, ErrorLog ''Error during delivery mechanism cleanup''])
     @ closeAll (Suc i) ds"

definition cleanup :: "notifier \<Rightarrow> notifier" where
  "cleanup s =
     (let s1 = (if 0 < length (eventBuffer s) then deliverBatch s else s);
          s2 = cleanupAdapter s1;
          s3 = s2\<lparr>effects := effects s2 @ closeAll 0 (deliveryMechanisms s2)\<rparr>;
          s4 = s3\<lparr>deliveryMechanisms := []\<rparr>
      in (case batchTimeout s4 of
            Some h \<Rightarrow> s4\<lparr>timeouts := clearTimeout h (timeouts s4), batchTimeout := None\<rparr>
          | None \<Rightarrow> s4))"

definition stop :: "notifier \<Rightarrow> promise \<times> notifier" where
  "stop s =
     (if \<not> isRunning s then (Resolved, s)
      else (Resolved, (cleanup s)\<lparr>isRunning := False\<rparr>))"


section \<open>The PostgreSQL adapter: resolving the table list\<close>

text \<open>
  \<^verbatim>\<open>TableFilter\<close>; \<open>None\<close> is a field left out. (The fields \<^verbatim>\<open>include\<close> and
  \<^verbatim>\<open>exclude\<close> are named \<open>includeTables\<close> and \<open>excludeTables\<close> here.) A row of
  \<^verbatim>\<open>information_schema.tables\<close> has the three columns the query reads.
\<close>

record TableFilter =
  includeTables :: "string list option"
  excludeTables :: "string list option"
  schemas :: "string list option"

record tableRow =
  table_schema :: string
  table_name :: string
  table_type :: string

text \<open>
  The text of the query, built as \<^verbatim>\<open>getTableList\<close> builds it (runs of white space
  written as one space), and the parameter list. The \<^verbatim>\<open>include\<close> clause is the
  literal text \<^verbatim>\<open>AND table_name = ANY($2::text[])\<close>. The \<^verbatim>\<open>exclude\<close> clause is the
  template literal \<^verbatim>\<open>AND table_name != ALL(${params.length + 1}::text[])\<close>, in which
  \<^verbatim>\<open>${...}\<close> is the template's substitution: the text holds the decimal number
  \<^verbatim>\<open>params.length + 1\<close> with no \<^verbatim>\<open>$\<close> before it.
\<close>

definition digitChars :: string where
  "digitChars = ''0123456789''"

function decimal :: "nat \<Rightarrow> string" where
  "decimal n =
     (if n < 10 then [digitChars ! n] else decimal (n div 10) @ [digitChars ! (n mod 10)])"
  by pat_completeness auto
termination
  by (relation "measure (\<lambda>n. n)") auto

definition baseQuery :: string where
  "baseQuery =
     ''SELECT table_schema, table_name FROM information_schema.tables WHERE table_type = ''
     @ [CHR 0x27] @ ''BASE TABLE'' @ [CHR 0x27]
     @ '' AND table_schema = ANY($1::text[])''"

definition getTableListQuery :: "TableFilter \<Rightarrow> string \<times> string list list" where
  "getTableListQuery tableFilter =
     (let schemaList = (case schemas tableFilter of None \<Rightarrow> [''public''] | Some xs \<Rightarrow> xs);
          query0 = baseQuery;
          params0 = [schemaList];
          (query1, params1) =
            (case includeTables tableFilter of
               None \<Rightarrow> (query0, params0)
             | Some inc \<Rightarrow>
                 if 0 < length inc
                 then (query0 @ '' AND table_name = ANY($2::text[])'', params0 @ [inc])
                 else (query0, params0));
          (query2, params2) =
            (case excludeTables tableFilter of
               None \<Rightarrow> (query1, params1)
             | Some exc \<Rightarrow>
                 if 0 < length exc
                 then (query1 @ '' AND table_name != ALL('' @ decimal (length params1 + 1)
                         @ ''::text[])'', params1 @ [exc])
                 else (query1, params1))
      in (query2, params2))"

text \<open>
  The database's side of the query. It reads the text: after the fixed part, clauses
  \<^verbatim>\<open>AND table_name = ANY(a)\<close> and \<^verbatim>\<open>AND table_name != ALL(a)\<close>, where \<^verbatim>\<open>a\<close> is a
  parameter \<^verbatim>\<open>$n::text[]\<close> or an integer literal cast, \<^verbatim>\<open>n::text[]\<close>. PostgreSQL
  has no cast from integer to \<^verbatim>\<open>text[]\<close> and rejects such a statement when it
  analyses it; it rejects a bind whose number of values differs from the number of
  parameters the statement has; otherwise it returns the rows that satisfy every
  clause.
\<close>

datatype sqlArray = Parameter nat | IntegerCast nat

datatype clause = NameAny sqlArray | NameNotAll sqlArray

datatype sqlError =
    SqlSyntaxError
  | CannotCastIntegerToTextArray
  | BindParameterMismatch
  | StatementRefused
  | MissingTriggerOptions

fun stripPrefix :: "string \<Rightarrow> string \<Rightarrow> string option" where
  "stripPrefix [] s = Some s"
| "stripPrefix (p # ps) [] = None"
| "stripPrefix (p # ps) (c # cs) = (if p = c then stripPrefix ps cs else None)"

definition isDigit :: "char \<Rightarrow> bool" where
  "isDigit c = (c \<in> set digitChars)"

definition digitValue :: "char \<Rightarrow> nat" where
  "digitValue c = length (takeWhile (\<lambda>d. d \<noteq> c) digitChars)"

definition numberOfDigits :: "string \<Rightarrow> nat" where
  "numberOfDigits ds = foldl (\<lambda>n c. 10 * n + digitValue c) 0 ds"

definition parseArray :: "string \<Rightarrow> (sqlArray \<times> string) option" where
  "parseArray s =
     (let (isParameter, s1) =
            (case s of
               [] \<Rightarrow> (False, s)
             | c # cs \<Rightarrow> if c = CHR ''$'' then (True, cs) else (False, s));
          ds = takeWhile isDigit s1;
          rest = dropWhile isDigit s1
      in if ds = [] then None
         else (case stripPrefix ''::text[])'' rest of
                 None \<Rightarrow> None
               | Some rest' \<Rightarrow>
                   Some (if isParameter then Parameter (numberOfDigits ds)
                         else IntegerCast (numberOfDigits ds), rest')))"

fun parseClauses :: "nat \<Rightarrow> string \<Rightarrow> clause list option" where
  "parseClauses 0 s = (if s = [] then Some [] else None)"
| "parseClauses (Suc fuel) s =
     (if s = [] then Some []
      else (case stripPrefix '' AND table_name = ANY('' s of
              Some r \<Rightarrow>
                (case parseArray r of
                   None \<Rightarrow> None
                 | Some (a, rest) \<Rightarrow> map_option ((#) (NameAny a)) (parseClauses fuel rest))
            | None \<Rightarrow>
                (case stripPrefix '' AND table_name != ALL('' s of
                   Some r \<Rightarrow>
                     (case parseArray r of
                        None \<Rightarrow> None
                      | Some (a, rest) \<Rightarrow>
                          map_option ((#) (NameNotAll a)) (parseClauses fuel rest))
                 | None \<Rightarrow> None)))"

definition parseQuery :: "string \<Rightarrow> clause list option" where
  "parseQuery q =
     (case stripPrefix baseQuery q of
        None \<Rightarrow> None
      | Some rest \<Rightarrow> parseClauses (length rest) rest)"

fun arrayOf :: "clause \<Rightarrow> sqlArray" where
  "arrayOf (NameAny a) = a"
| "arrayOf (NameNotAll a) = a"

fun isCast :: "sqlArray \<Rightarrow> bool" where
  "isCast (IntegerCast k) = True"
| "isCast (Parameter i) = False"

fun parameterIndex :: "sqlArray \<Rightarrow> nat" where
  "parameterIndex (Parameter i) = i"
| "parameterIndex (IntegerCast k) = 0"

fun satisfies :: "string list list \<Rightarrow> tableRow \<Rightarrow> clause \<Rightarrow> bool" where
  "satisfies params row (NameAny a) = (table_name row \<in> set (params ! (parameterIndex a - 1)))"
| "satisfies params row (NameNotAll a) = (table_name row \<notin> set (params ! (parameterIndex a - 1)))"

definition selectTables ::
  "tableRow list \<Rightarrow> string \<Rightarrow> string list list \<Rightarrow> sqlError + tableRow list" where
  "selectTables cat q params =
     (case parseQuery q of
        None \<Rightarrow> Inl SqlSyntaxError
      | Some clauses \<Rightarrow>
          if list_ex (\<lambda>c. isCast (arrayOf c)) clauses then Inl CannotCastIntegerToTextArray
          else if length params \<noteq> Max (set (1 # map (\<lambda>c. parameterIndex (arrayOf c)) clauses))
          then Inl BindParameterMismatch
          else Inr (filter (\<lambda>row. table_type row = ''BASE TABLE''
                             \<and> table_schema row \<in> set (params ! 0)
                             \<and> list_all (satisfies params row) clauses) cat))"

text \<open>
  \<^verbatim>\<open>getTableList\<close>: the query is sent and each row gives a schema and a table name. A
  rejected query rejects the promise.
\<close>

definition getTableList ::
  "tableRow list \<Rightarrow> TableFilter \<Rightarrow> sqlError + (string \<times> string) list" where
  "getTableList cat tableFilter =
     (let (queryText, params) = getTableListQuery tableFilter
      in (case selectTables cat queryText params of
            Inl e \<Rightarrow> Inl e
          | Inr rows \<Rightarrow> Inr (map (\<lambda>row. (table_schema row, table_name row)) rows)))"

text \<open>
  The set the specification gives for a filter: the base tables of the catalog in the
  filter's schemas (\<^verbatim>\<open>public\<close> when none are given), among \<^verbatim>\<open>include\<close> when it is
  given and not empty, outside \<^verbatim>\<open>exclude\<close> when it is given and not empty.
\<close>

definition resolvedTables :: "tableRow list \<Rightarrow> TableFilter \<Rightarrow> (string \<times> string) set" where
  "resolvedTables cat tableFilter =
     {(table_schema row, table_name row) | row.
        row \<in> set cat \<and> table_type row = ''BASE TABLE''
        \<and> table_schema row \<in> set (case schemas tableFilter of None \<Rightarrow> [''public''] | Some xs \<Rightarrow> xs)
        \<and> (case includeTables tableFilter of
              None \<Rightarrow> True
            | Some inc \<Rightarrow> inc = [] \<or> table_name row \<in> set inc)
        \<and> (case excludeTables tableFilter of
              None \<Rightarrow> True
            | Some exc \<Rightarrow> exc = [] \<or> table_name row \<notin> set exc)}"

section \<open>The PostgreSQL adapter: installing and dropping triggers\<close>

record TriggerRecord =
  triggerName :: string
  triggerTable :: string
  triggerSchema :: string

text \<open>
  The statements the adapter sends. The text \<^verbatim>\<open>buildTriggerSQL\<close> produces drops a
  trigger of that name on the table if there is one and creates the trigger; it is one
  statement here, \<open>CreateTrigger\<close>. \<^verbatim>\<open>buildTriggerSQL\<close> throws when a required option
  is empty.
\<close>

datatype statement =
    Begin
  | Commit
  | Rollback
  | CreateNotifyFunction
  | SelectTables string "string list list"
  | CreateTrigger TriggerRecord
  | DropTrigger TriggerRecord

definition buildTriggerSQL ::
  "string \<Rightarrow> string \<Rightarrow> string \<Rightarrow> string \<Rightarrow> string list \<Rightarrow> sqlError + statement" where
  "buildTriggerSQL trigName schemaName tableName functionName operations =
     (if trigName = [] \<or> schemaName = [] \<or> tableName = [] \<or> functionName = []
         \<or> length operations = 0
      then Inl MissingTriggerOptions
      else Inr (CreateTrigger
                  \<lparr>triggerName = trigName, triggerTable = tableName, triggerSchema = schemaName\<rparr>))"

text \<open>
  The database: its catalog of tables, the triggers installed (as committed), the
  triggers as the open transaction sees them (\<open>None\<close> when no transaction is open), the
  statements it refuses (a missing privilege, a table dropped meanwhile, a lost
  connection), and whether the pool hands out a connection.
\<close>

record database =
  catalog :: "tableRow list"
  installed :: "TriggerRecord list"
  transaction :: "TriggerRecord list option"
  refuses :: "statement \<Rightarrow> bool"
  poolConnects :: bool

definition changeTriggers ::
  "(TriggerRecord list \<Rightarrow> TriggerRecord list) \<Rightarrow> database \<Rightarrow> database" where
  "changeTriggers f db =
     (case transaction db of
        Some working \<Rightarrow> db\<lparr>transaction := Some (f working)\<rparr>
      | None \<Rightarrow> db\<lparr>installed := f (installed db)\<rparr>)"

definition query :: "statement \<Rightarrow> database \<Rightarrow> (sqlError + tableRow list) \<times> database" where
  "query st db =
     (if refuses db st then (Inl StatementRefused, db)
      else (case st of
              Begin \<Rightarrow> (Inr [], db\<lparr>transaction := Some (installed db)\<rparr>)
            | Commit \<Rightarrow>
                (Inr [], (case transaction db of
                            Some working \<Rightarrow> db\<lparr>installed := working, transaction := None\<rparr>
                          | None \<Rightarrow> db))
            | Rollback \<Rightarrow> (Inr [], db\<lparr>transaction := None\<rparr>)
            | CreateNotifyFunction \<Rightarrow> (Inr [], db)
            | SelectTables q params \<Rightarrow> (selectTables (catalog db) q params, db)
            | CreateTrigger t \<Rightarrow>
                (Inr [], changeTriggers (\<lambda>ts. filter (\<lambda>u. u \<noteq> t) ts @ [t]) db)
            | DropTrigger t \<Rightarrow>
                (Inr [], changeTriggers (\<lambda>ts. filter (\<lambda>u. u \<noteq> t) ts) db)))"

text \<open>
  The adapter's fields that the trigger lifecycle and the payload handler use:
  \<^verbatim>\<open>initialized\<close>, \<^verbatim>\<open>triggers\<close>, \<^verbatim>\<open>config.database\<close>, and the registered change-event
  handler (\<open>None\<close> is \<^verbatim>\<open>null\<close>; the handler returns, \<open>True\<close>, or throws, \<open>False\<close>).
\<close>

record PostgresAdapter =
  initialized :: bool
  triggers :: "TriggerRecord list"
  configDatabase :: string
  changeEventHandler :: "(jsval ChangeEvent \<Rightarrow> bool) option"

text \<open>What a rejected promise of the adapter carries: the wrapping error, or a raw one.\<close>

datatype rejection = DBChangeError | RawError

text \<open>The loop of \<^verbatim>\<open>setupChangeNotifications\<close> over the resolved tables.\<close>

fun createTriggers ::
  "(string \<times> string) list \<Rightarrow> PostgresAdapter \<Rightarrow> database
     \<Rightarrow> sqlError option \<times> PostgresAdapter \<times> database" where
  "createTriggers [] a db = (None, a, db)"
| "createTriggers ((schemaName, tableName) # rest) a db =
     (let trigName = ''db_change_notify_'' @ schemaName @ ''_'' @ tableName
      in (case buildTriggerSQL trigName schemaName tableName ''notify_db_changes''
                 [''INSERT'', ''UPDATE'', ''DELETE''] of
            Inl e \<Rightarrow> (Some e, a, db)
          | Inr triggerSQL \<Rightarrow>
              (case query triggerSQL db of
                 (Inl e, db') \<Rightarrow> (Some e, a, db')
               | (Inr rows, db') \<Rightarrow>
                   createTriggers rest
                     (a\<lparr>triggers := triggers a
                          @ [\<lparr>triggerName = trigName, triggerTable = tableName,
                              triggerSchema = schemaName\<rparr>]\<rparr>)
                     db')))"

text \<open>The \<^verbatim>\<open>try\<close> block of \<^verbatim>\<open>setupChangeNotifications\<close>; \<open>Some e\<close> is what it throws.\<close>

definition setupTransaction ::
  "TableFilter \<Rightarrow> PostgresAdapter \<Rightarrow> database \<Rightarrow> sqlError option \<times> PostgresAdapter \<times> database" where
  "setupTransaction tableFilter a db =
     (case query Begin db of
        (Inl e, db1) \<Rightarrow> (Some e, a, db1)
      | (Inr r1, db1) \<Rightarrow>
          (case query CreateNotifyFunction db1 of
             (Inl e, db2) \<Rightarrow> (Some e, a, db2)
           | (Inr r2, db2) \<Rightarrow>
               (let (queryText, params) = getTableListQuery tableFilter
                in (case query (SelectTables queryText params) db2 of
                      (Inl e, db3) \<Rightarrow> (Some e, a, db3)
                    | (Inr rows, db3) \<Rightarrow>
                        (case createTriggers
                                (map (\<lambda>row. (table_schema row, table_name row)) rows) a db3 of
                           (Some e, a4, db4) \<Rightarrow> (Some e, a4, db4)
                         | (None, a4, db4) \<Rightarrow>
                             (case query Commit db4 of
                                (Inl e, db5) \<Rightarrow> (Some e, a4, db5)
                              | (Inr r5, db5) \<Rightarrow> (None, a4\<lparr>initialized := True\<rparr>, db5)))))))"

definition setupChangeNotifications ::
  "TableFilter \<Rightarrow> PostgresAdapter \<Rightarrow> database
     \<Rightarrow> rejection option \<times> PostgresAdapter \<times> database" where
  "setupChangeNotifications tableFilter a db =
     (if initialized a then (None, a, db)
      else if \<not> poolConnects db then (Some RawError, a, db)
      else (case setupTransaction tableFilter a db of
              (None, a', db') \<Rightarrow> (None, a', db')
            | (Some e, a', db') \<Rightarrow>
                (case query Rollback db' of
                   (Inl e', db'') \<Rightarrow> (Some RawError, a', db'')
                 | (Inr r, db'') \<Rightarrow> (Some DBChangeError, a', db''))))"

fun dropTriggers :: "TriggerRecord list \<Rightarrow> database \<Rightarrow> sqlError option \<times> database" where
  "dropTriggers [] db = (None, db)"
| "dropTriggers (t # ts) db =
     (case query (DropTrigger t) db of
        (Inl e, db') \<Rightarrow> (Some e, db')
      | (Inr rows, db') \<Rightarrow> dropTriggers ts db')"

definition teardownTransaction ::
  "PostgresAdapter \<Rightarrow> database \<Rightarrow> sqlError option \<times> PostgresAdapter \<times> database" where
  "teardownTransaction a db =
     (case query Begin db of
        (Inl e, db1) \<Rightarrow> (Some e, a, db1)
      | (Inr r1, db1) \<Rightarrow>
          (case dropTriggers (triggers a) db1 of
             (Some e, db2) \<Rightarrow> (Some e, a, db2)
           | (None, db2) \<Rightarrow>
               (case query Commit db2 of
                  (Inl e, db3) \<Rightarrow> (Some e, a, db3)
                | (Inr r3, db3) \<Rightarrow> (None, a\<lparr>initialized := False, triggers := []\<rparr>, db3))))"

definition teardownChangeNotifications ::
  "PostgresAdapter \<Rightarrow> database \<Rightarrow> rejection option \<times> PostgresAdapter \<times> database" where
  "teardownChangeNotifications a db =
     (if \<not> initialized a then (None, a, db)
      else if \<not> poolConnects db then (Some RawError, a, db)
      else (case teardownTransaction a db of
              (None, a', db') \<Rightarrow> (None, a', db')
            | (Some e, a', db') \<Rightarrow>
                (case query Rollback db' of
                   (Inl e', db'') \<Rightarrow> (Some RawError, a', db'')
                 | (Inr r, db'') \<Rightarrow> (Some DBChangeError, a', db''))))"

section \<open>The PostgreSQL adapter: the payload handler\<close>

text \<open>
  Reading a property of a parsed value, for the property names the handler reads
  (\<^verbatim>\<open>id\<close>, \<^verbatim>\<open>timestamp\<close>, \<^verbatim>\<open>operation\<close>, \<^verbatim>\<open>table\<close>, \<^verbatim>\<open>schema\<close>, \<^verbatim>\<open>data\<close>,
  \<^verbatim>\<open>new\<close>, \<^verbatim>\<open>old\<close>): a \<^verbatim>\<open>TypeError\<close> on \<^verbatim>\<open>null\<close> and \<^verbatim>\<open>undefined\<close>, the field
  of an object, \<^verbatim>\<open>undefined\<close> otherwise. \<open>getOptional\<close> is the optional chaining
  \<^verbatim>\<open>v?.k\<close>.
\<close>

fun getProp :: "jsval \<Rightarrow> string \<Rightarrow> jsError + jsval" where
  "getProp JUndefined k = Inl TypeError"
| "getProp JNull k = Inl TypeError"
| "getProp (JObj props) k = Inr (case map_of props k of None \<Rightarrow> JUndefined | Some v \<Rightarrow> v)"
| "getProp other k = Inr JUndefined"

fun getOptional :: "jsval \<Rightarrow> string \<Rightarrow> jsError + jsval" where
  "getOptional JUndefined k = Inr JUndefined"
| "getOptional JNull k = Inr JUndefined"
| "getOptional v k = getProp v k"

text \<open>\<^verbatim>\<open>a || b\<close>.\<close>

definition orElse :: "jsval \<Rightarrow> jsval \<Rightarrow> jsval" where
  "orElse a b = (if truthy a then a else b)"

text \<open>
  \<^verbatim>\<open>String.prototype.toLowerCase\<close> on the letters A to Z; the other characters of the
  8-bit strings used here are left as they are.
\<close>

definition lowerChar :: "char \<Rightarrow> char" where
  "lowerChar c =
     (case map_of (zip ''ABCDEFGHIJKLMNOPQRSTUVWXYZ'' ''abcdefghijklmnopqrstuvwxyz'') c of
        None \<Rightarrow> c
      | Some l \<Rightarrow> l)"

definition toLowerCase :: "string \<Rightarrow> string" where
  "toLowerCase s = map lowerChar s"

text \<open>
  \<^verbatim>\<open>mapOperationType\<close>. The argument is whatever the payload holds under
  \<^verbatim>\<open>operation\<close>; calling \<^verbatim>\<open>toLowerCase\<close> on anything but a string throws a
  \<^verbatim>\<open>TypeError\<close>.
\<close>

definition mapOperationType :: "jsval \<Rightarrow> jsError + OperationType" where
  "mapOperationType pgOperation =
     (case pgOperation of
        JStr s \<Rightarrow>
          (let l = toLowerCase s
           in Inr (if l = ''insert'' then INSERT
                   else if l = ''update'' then UPDATE
                   else if l = ''delete'' then DELETE
                   else if l = ''truncate'' then TRUNCATE
                   else UNKNOWN))
      | other \<Rightarrow> Inl TypeError)"

definition recognized :: "string \<Rightarrow> bool" where
  "recognized keyword =
     (toLowerCase keyword \<in> {''insert'', ''update'', ''delete'', ''truncate''})"

text \<open>
  What the handler takes from the runtime: \<^verbatim>\<open>JSON.parse\<close> (\<open>None\<close> when it throws a
  \<^verbatim>\<open>SyntaxError\<close>), \<^verbatim>\<open>uuidv4()\<close>, \<^verbatim>\<open>new Date().toISOString()\<close>, the text
  \<^verbatim>\<open>new Date(n * 1000).toISOString()\<close> returns for a number \<open>n\<close> of seconds whose date
  is valid (the runtime multiplies and rounds in floating point, so the product is left
  to it), and the conversion to a number of a value that is not a number (\<open>None\<close> is
  \<^verbatim>\<open>NaN\<close>).
\<close>

record runtime =
  jsonParse :: "string \<Rightarrow> jsval option"
  uuidv4 :: string
  nowISOString :: string
  isoString :: "rat \<Rightarrow> string"
  toNumber :: "jsval \<Rightarrow> rat option"

text \<open>
  \<^verbatim>\<open>new Date(v * 1000).toISOString()\<close>: the product is clipped to a time value, which
  is \<^verbatim>\<open>NaN\<close> when the product is \<^verbatim>\<open>NaN\<close> or beyond 8.64e15 milliseconds either side
  of the epoch, and \<^verbatim>\<open>toISOString\<close> throws a \<^verbatim>\<open>RangeError\<close> on \<^verbatim>\<open>NaN\<close>. Only
  whether it throws is decided here, on the exact product; the floating-point product
  lies beyond the bound exactly when the exact one does, since 8.64e15 is itself a
  floating-point number and rounding is monotone, and the numbers just above 8.64e12
  are more than 0.0005 apart. The text of a valid date is the runtime's.
\<close>

definition dateISOString :: "runtime \<Rightarrow> jsval \<Rightarrow> jsError + string" where
  "dateISOString rt v =
     (case (case v of JNum n \<Rightarrow> Some n | other \<Rightarrow> toNumber rt other) of
        None \<Rightarrow> Inl RangeError
      | Some n \<Rightarrow>
          (let ms = n * 1000
           in if 8640000000000000 < \<bar>ms\<bar> then Inl RangeError
              else Inr (isoString rt n)))"

text \<open>
  The object literal of \<^verbatim>\<open>handleNotification\<close>, its properties evaluated in the order
  they are written; the first one that throws ends the evaluation.
\<close>

definition buildEvent :: "runtime \<Rightarrow> string \<Rightarrow> jsval \<Rightarrow> jsError + jsval ChangeEvent" where
  "buildEvent rt dbName d =
     (case getProp d ''id'' of
        Inl e \<Rightarrow> Inl e
      | Inr idValue \<Rightarrow>
     (case getProp d ''timestamp'' of
        Inl e \<Rightarrow> Inl e
      | Inr ts \<Rightarrow>
     (case (if truthy ts then dateISOString rt ts else Inr (nowISOString rt)) of
        Inl e \<Rightarrow> Inl e
      | Inr isoText \<Rightarrow>
     (case getProp d ''operation'' of
        Inl e \<Rightarrow> Inl e
      | Inr pgOperation \<Rightarrow>
     (case mapOperationType pgOperation of
        Inl e \<Rightarrow> Inl e
      | Inr op \<Rightarrow>
     (case getProp d ''table'' of
        Inl e \<Rightarrow> Inl e
      | Inr tbl \<Rightarrow>
     (case getProp d ''schema'' of
        Inl e \<Rightarrow> Inl e
      | Inr sch \<Rightarrow>
     (case getProp d ''data'' of
        Inl e \<Rightarrow> Inl e
      | Inr dd \<Rightarrow>
     (case getOptional dd ''new'' of
        Inl e \<Rightarrow> Inl e
      | Inr newValue \<Rightarrow>
     (case getOptional dd ''old'' of
        Inl e \<Rightarrow> Inl e
      | Inr oldValue \<Rightarrow>
          Inr \<lparr>ev_id = orElse idValue (JStr (uuidv4 rt)),
               timestamp = isoText,
               operation = op,
               database_name = dbName,
               source_table = tbl,
               source_schema = (if sch = JUndefined then None else Some sch),
               data_new = orElse newValue JNull,
               data_old = orElse oldValue JNull\<rparr>))))))))))"

text \<open>
  What a call of \<^verbatim>\<open>handleNotification\<close> ends in: the event was handed to the registered
  handler, which returned; the event was built and no handler is registered; or the
  \<^verbatim>\<open>catch\<close> logged an error (with the event, if it had been built by then).
  \<open>handleNotification\<close> returns \<open>Inl\<close> for an error it lets escape.
\<close>

datatype outcome =
    Emitted "jsval ChangeEvent"
  | NoHandler "jsval ChangeEvent"
  | Logged jsError "jsval ChangeEvent option"

definition emitChangeEvent ::
  "PostgresAdapter \<Rightarrow> jsval ChangeEvent \<Rightarrow> (jsError \<times> jsval ChangeEvent option) + outcome" where
  "emitChangeEvent a ev =
     (case changeEventHandler a of
        None \<Rightarrow> Inr (NoHandler ev)
      | Some handler \<Rightarrow> if handler ev then Inr (Emitted ev) else Inl (HandlerThrows, Some ev))"

definition handleNotification :: "runtime \<Rightarrow> PostgresAdapter \<Rightarrow> string \<Rightarrow> jsError + outcome" where
  "handleNotification rt a payloadText =
     (case (case jsonParse rt payloadText of
              None \<Rightarrow> Inl (SyntaxError, None)
            | Some d \<Rightarrow>
                (case buildEvent rt (configDatabase a) d of
                   Inl e \<Rightarrow> Inl (e, None)
                 | Inr ev \<Rightarrow> emitChangeEvent a ev)) of
        Inl (e, built) \<Rightarrow> Inr (Logged e built)
      | Inr result \<Rightarrow> Inr result)"

definition builtEvent :: "jsError + outcome \<Rightarrow> jsval ChangeEvent option" where
  "builtEvent r =
     (case r of
        Inl e \<Rightarrow> None
      | Inr (Emitted ev) \<Rightarrow> Some ev
      | Inr (NoHandler ev) \<Rightarrow> Some ev
      | Inr (Logged e built) \<Rightarrow> built)"

text \<open>
  The value a payload supplies for \<^verbatim>\<open>data.new\<close> or \<^verbatim>\<open>data.old\<close>, if it supplies one.
\<close>

definition supplied :: "jsval \<Rightarrow> string \<Rightarrow> jsval option" where
  "supplied d k =
     (case d of
        JObj props \<Rightarrow>
          (case map_of props ''data'' of
             Some (JObj dataProps) \<Rightarrow> map_of dataProps k
           | other \<Rightarrow> None)
      | other \<Rightarrow> None)"

section \<open>The specification's pipeline and cleanup, in its words\<close>

text \<open>
  A pattern matches a table name when a search from the start of the name finds a match
  (for a string, of the regular expression it compiles to). The pipeline applies the
  transforms of the matching entries in the declared order, each to the result of the
  one before, and ends with no event as soon as one of them returns none. An entry is
  stateless when its pattern is a string that compiles, or a \<^verbatim>\<open>RegExp\<close> object with
  neither the \<^verbatim>\<open>g\<close> nor the \<^verbatim>\<open>y\<close> flag.
\<close>

definition patternMatches :: "compiler \<Rightarrow> tablePattern \<Rightarrow> string \<Rightarrow> bool" where
  "patternMatches compile pat tbl =
     (case pat of
        PatternString text \<Rightarrow>
          (case compile text of
             None \<Rightarrow> False
           | Some m \<Rightarrow> regExpSearch m False tbl 0 \<noteq> None)
      | PatternRegExp r \<Rightarrow> regExpSearch (matcher r) False tbl 0 \<noteq> None)"

fun pipeline :: "(event \<Rightarrow> event option) list \<Rightarrow> event \<Rightarrow> event option" where
  "pipeline [] ev = Some ev"
| "pipeline (f # fs) ev = (case f ev of None \<Rightarrow> None | Some ev' \<Rightarrow> pipeline fs ev')"

definition stateless :: "compiler \<Rightarrow> TransformationConfig \<Rightarrow> bool" where
  "stateless compile t =
     (case tablePattern t of
        PatternString text \<Rightarrow> compile text \<noteq> None
      | PatternRegExp r \<Rightarrow> \<not> global r \<and> \<not> sticky r)"

definition matching :: "compiler \<Rightarrow> string \<Rightarrow> TransformationConfig list \<Rightarrow> (event \<Rightarrow> event option) list" where
  "matching compile tbl ts =
     map transform (filter (\<lambda>t. patternMatches compile (tablePattern t) tbl) ts)"

text \<open>The sinks on which \<^verbatim>\<open>close()\<close> was called, by index, in the order of the calls.\<close>

fun closedSinks :: "effect list \<Rightarrow> nat list" where
  "closedSinks [] = []"
| "closedSinks (SinkClose i outcome # fx) = i # closedSinks fx"
| "closedSinks (other # fx) = closedSinks fx"

section \<open>Invariants\<close>

text \<open>
  The invariant of the retry timer: the timeouts pending in the event loop are exactly
  the one the variable \<^verbatim>\<open>reconnectTimeout\<close> holds, if it holds one, and that handle
  is one the runtime has already handed out.
\<close>

definition timerInv :: "listener \<Rightarrow> bool" where
  "timerInv s =
     (map fst (pending (loop s)) = (case reconnectTimeout s of None \<Rightarrow> [] | Some h \<Rightarrow> [h])
      \<and> (\<forall>h. reconnectTimeout s = Some h \<longrightarrow> h < fresh (loop s)))"

text \<open>
  The invariant of the delivery counters: the sinks are the ones the orchestrator was
  started with, every fan-out recorded holds the outcome of each sink's \<^verbatim>\<open>deliver\<close>
  for its payload, and the three counters count the fan-outs, those in which every sink
  resolved, and the others.
\<close>

definition statsInv :: "sink list \<Rightarrow> notifier \<Rightarrow> bool" where
  "statsInv sinks s =
     (deliveryMechanisms s = sinks
      \<and> list_all (\<lambda>call. snd call = map (\<lambda>d. deliver d (fst call)) sinks) (fanOuts (effects s))
      \<and> deliveryAttempts (stats s) = length (fanOuts (effects s))
      \<and> deliverySuccesses (stats s) = length (filter succeeded (fanOuts (effects s)))
      \<and> deliveryFailures (stats s) = length (filter (\<lambda>c. \<not> succeeded c) (fanOuts (effects s))))"

text \<open>
  The invariant of the batch timeout: the timeouts pending are exactly the one
  \<^verbatim>\<open>batchTimeout\<close> holds, and one is held exactly while the buffer is not empty.
\<close>

definition batchInv :: "notifier \<Rightarrow> bool" where
  "batchInv s =
     (map fst (pending (timeouts s)) = (case batchTimeout s of None \<Rightarrow> [] | Some h \<Rightarrow> [h])
      \<and> ((eventBuffer s = []) = (batchTimeout s = None)))"

section \<open>Example data\<close>

text \<open>
  Concrete inputs for the evaluations below: a matcher for a pattern made of literal
  characters and the compiler that yields it, an event, the transform of the
  repository's example (it redacts a password), sinks, a configuration, an adapter as
  the orchestrator sees it; a catalog, a filter, an adapter and a database; payload
  texts with what \<^verbatim>\<open>JSON.parse\<close> returns for them.
\<close>

definition literalMatcher :: "string \<Rightarrow> matcher" where
  "literalMatcher p s i =
     (if take (length p) (drop i s) = p then Some (i + length p) else None)"

definition literalCompiler :: compiler where
  "literalCompiler text = Some (literalMatcher text)"

definition exampleEvent :: "string \<Rightarrow> string \<Rightarrow> event" where
  "exampleEvent ident tbl =
     \<lparr>ev_id = ident, timestamp = ''2024-01-01T00:00:00.000Z'', operation = INSERT,
      database_name = ''demo_db'', source_table = tbl, source_schema = Some ''public'',
      data_new = JObj [(''password'', JStr ''secret'')], data_old = JNull\<rparr>"

definition exampleEvents :: "nat \<Rightarrow> event list" where
  "exampleEvents n = map (\<lambda>i. exampleEvent (''e'' @ decimal i) ''users'') [0..<n]"

definition redactPassword :: "event \<Rightarrow> event option" where
  "redactPassword ev = Some (ev\<lparr>data_new := JObj [(''password'', JStr ''***REDACTED***'')]\<rparr>)"

definition exampleSink :: "bool \<Rightarrow> sink" where
  "exampleSink ok =
     \<lparr>sinkInitialized = True, deliverEvent_resolves = (\<lambda>p. ok), closeDelivery_resolves = True\<rparr>"

definition exampleConfig :: "bool \<Rightarrow> int option \<Rightarrow> TransformationConfig list option \<Rightarrow> NotifierConfig" where
  "exampleConfig batching sz ts =
     \<lparr>batchingEnabled = batching, batchSize = sz, batchTimeWindowMs = None,
      transformations = ts\<rparr>"

definition exampleAdapter :: "bool \<Rightarrow> DatabaseAdapter" where
  "exampleAdapter stopOk = \<lparr>stop_resolves = stopOk, teardown_resolves = True\<rparr>"

definition exampleCatalog :: "tableRow list" where
  "exampleCatalog =
     [\<lparr>table_schema = ''public'', table_name = ''users'', table_type = ''BASE TABLE''\<rparr>,
      \<lparr>table_schema = ''public'', table_name = ''logs'', table_type = ''BASE TABLE''\<rparr>,
      \<lparr>table_schema = ''public'', table_name = ''report'', table_type = ''VIEW''\<rparr>,
      \<lparr>table_schema = ''audit'', table_name = ''users'', table_type = ''BASE TABLE''\<rparr>]"

definition noFilter :: TableFilter where
  "noFilter = \<lparr>includeTables = None, excludeTables = None, schemas = None\<rparr>"

definition newAdapter :: PostgresAdapter where
  "newAdapter = \<lparr>initialized = False, triggers = [], configDatabase = ''demo_db'',
      changeEventHandler = None\<rparr>"

definition triggerOn :: "string \<Rightarrow> string \<Rightarrow> TriggerRecord" where
  "triggerOn schemaName tableName =
     \<lparr>triggerName = ''db_change_notify_'' @ schemaName @ ''_'' @ tableName,
      triggerTable = tableName, triggerSchema = schemaName\<rparr>"

definition exampleDatabase :: "TriggerRecord list \<Rightarrow> statement list \<Rightarrow> database" where
  "exampleDatabase present refused =
     \<lparr>catalog = exampleCatalog, installed = present, transaction = None,
      refuses = (\<lambda>st. st \<in> set refused), poolConnects = True\<rparr>"

definition quoted :: "string \<Rightarrow> string" where
  "quoted s = CHR 0x22 # s @ [CHR 0x22]"

definition mergePayload :: string where
  "mergePayload =
     ''{'' @ quoted ''operation'' @ '':'' @ quoted ''merge'' @ '',''
       @ quoted ''timestamp'' @ '':1e20}''"

definition copyPayload :: string where
  "copyPayload = ''{'' @ quoted ''operation'' @ '':'' @ quoted ''COPY'' @ ''}''"

definition insertPayload :: string where
  "insertPayload =
     ''{'' @ quoted ''operation'' @ '':'' @ quoted ''INSERT'' @ '',''
       @ quoted ''table'' @ '':'' @ quoted ''users'' @ '',''
       @ quoted ''data'' @ '':{'' @ quoted ''new'' @ '':{'' @ quoted ''id'' @ '':1}},''
       @ quoted ''timestamp'' @ '':1700000000}''"

definition exampleRuntime :: runtime where
  "exampleRuntime =
     \<lparr>jsonParse = map_of
        [(mergePayload, JObj [(''operation'', JStr ''merge''),
                              (''timestamp'', JNum 100000000000000000000)]),
         (copyPayload, JObj [(''operation'', JStr ''COPY'')]),
         (insertPayload, JObj [(''operation'', JStr ''INSERT''), (''table'', JStr ''users''),
                               (''data'', JObj [(''new'', JObj [(''id'', JNum 1)])]),
                               (''timestamp'', JNum 1700000000)])],
      uuidv4 = ''3f0e8c1a-uuid'',
      nowISOString = ''2024-01-01T00:00:00.000Z'',
      isoString = (\<lambda>n. if n = 1700000000 then ''2023-11-14T22:13:20.000Z'' else ''other''),
      toNumber = (\<lambda>v. None)\<rparr>"

definition listeningAdapter :: PostgresAdapter where
  "listeningAdapter =
     \<lparr>initialized = True, triggers = [], configDatabase = ''demo_db'',
      changeEventHandler = Some (\<lambda>ev. True)\<rparr>"

section \<open>Properties of the notification listener\<close>

lemma backoffDelay_le: "backoffDelay n \<le> 30000"
  by (simp add: backoffDelay_def)

lemma timerInv_init: "timerInv createNotificationListener"
  by (simp add: timerInv_def createNotificationListener_def noTimers_def)

lemma timerInv_handleReconnect:
  "timerInv s \<Longrightarrow> timerInv (handleReconnect d s)"
  by (auto simp: timerInv_def handleReconnect_def setTimeout_def clearTimeout_def Let_def
      split: option.splits)

lemma pending_handleReconnect:
  "timerInv s \<Longrightarrow> pending (loop (handleReconnect d s)) = [(the (reconnectTimeout (handleReconnect d s)), d)]"
  by (auto simp: timerInv_def handleReconnect_def setTimeout_def clearTimeout_def Let_def
      split: option.splits)

lemma timerInv_fields:
  "timerInv (s\<lparr>client := c\<rparr>) = timerInv s"
  "timerInv (s\<lparr>connected := b\<rparr>) = timerInv s"
  "timerInv (s\<lparr>connectionAttempts := n\<rparr>) = timerInv s"
  "timerInv (s\<lparr>connecting := k\<rparr>) = timerInv s"
  "timerInv (s\<lparr>disconnecting := k\<rparr>) = timerInv s"
  by (simp_all add: timerInv_def)

lemma timerInv_handleDisconnect: "timerInv s \<Longrightarrow> timerInv (handleDisconnect s)"
  by (simp add: handleDisconnect_def Let_def timerInv_fields timerInv_handleReconnect)

lemma timerInv_cleared:
  "timerInv s \<Longrightarrow> reconnectTimeout s = Some h \<Longrightarrow>
   timerInv (s\<lparr>loop := clearTimeout h (loop s), reconnectTimeout := None\<rparr>)"
  by (auto simp: timerInv_def clearTimeout_def)

lemma timerInv_disconnectBegin: "timerInv s \<Longrightarrow> timerInv (snd (disconnectBegin s))"
  by (cases "reconnectTimeout s")
     (auto simp: disconnectBegin_def Let_def timerInv_cleared)

lemma timerInv_disconnectEnd: "timerInv s \<Longrightarrow> timerInv (snd (disconnectEnd oc s))"
  by (cases oc) (simp_all add: disconnectEnd_def timerInv_fields)

lemma isPending_inv: "timerInv s \<Longrightarrow> isPending h (loop s) \<Longrightarrow> reconnectTimeout s = Some h"
  by (auto simp: timerInv_def isPending_def split: option.splits)

lemma timerInv_step: "timerInv s \<Longrightarrow> timerInv (listenerStep ev s)"
proof (cases ev)
  case ConnectCalled
  then show "timerInv s \<Longrightarrow> ?thesis" by (simp add: connectBegin_def timerInv_fields)
next
  case (ConnectSettled oc)
  then show "timerInv s \<Longrightarrow> ?thesis"
    by (cases oc)
       (simp_all add: connectResolved_def connectRejected_def Let_def timerInv_fields
          timerInv_handleReconnect)
next
  case ErrorEvent
  then show "timerInv s \<Longrightarrow> ?thesis" by (simp add: timerInv_handleDisconnect)
next
  case DisconnectCalled
  assume inv: "timerInv s"
  obtain r s1 where b: "disconnectBegin s = (r, s1)" by (cases "disconnectBegin s")
  with timerInv_disconnectBegin[OF inv] have "timerInv s1" by simp
  with DisconnectCalled b show ?thesis by (cases r) (simp_all add: timerInv_fields)
next
  case (DisconnectSettled oc)
  assume inv: "timerInv s"
  then have "timerInv (s\<lparr>disconnecting := disconnecting s - 1\<rparr>)" by (simp add: timerInv_fields)
  from timerInv_disconnectEnd[OF this] DisconnectSettled inv show ?thesis by simp
next
  case (TimeoutFires h)
  assume inv: "timerInv s"
  show ?thesis
  proof (cases "isPending h (loop s)")
    case False
    with TimeoutFires inv show ?thesis by simp
  next
    case True
    from timerInv_cleared[OF inv isPending_inv[OF inv True]]
    show ?thesis using TimeoutFires True
      by (simp add: Let_def connectBegin_def timerInv_fields)
  qed
qed

lemma timerInv_run: "timerInv s \<Longrightarrow> timerInv (listenerRun evs s)"
  by (induction evs arbitrary: s) (simp_all add: timerInv_step)


lemma attempts_handleReconnect [simp]:
  "connectionAttempts (handleReconnect d s) = connectionAttempts s"
  by (simp add: handleReconnect_def Let_def split: prod.splits)

lemma connected_handleReconnect [simp]:
  "connected (handleReconnect d s) = connected s"
  by (simp add: handleReconnect_def Let_def split: prod.splits)

lemma connecting_handleReconnect [simp]:
  "connecting (handleReconnect d s) = connecting s"
  by (simp add: handleReconnect_def Let_def split: prod.splits)

lemma reconnectTimeout_handleReconnect:
  "reconnectTimeout (handleReconnect d s) \<noteq> None"
  by (simp add: handleReconnect_def Let_def split: prod.splits)

lemma run_append: "listenerRun (xs @ ys) s = listenerRun ys (listenerRun xs s)"
  by (induction xs arbitrary: s) simp_all

lemma countFailures_append:
  "countFailures (xs @ ys) s = countFailures xs s + countFailures ys (listenerRun xs s)"
  by (induction xs arbitrary: s) simp_all

lemma noOverlap_head: "noOverlap evs s \<Longrightarrow> connecting s \<le> 1"
  by (cases evs) simp_all

text \<open>
  While connect attempts do not overlap and none succeeds, the attempt counter is the
  number of failures so far plus the attempt under way, and no attempt is under way
  while the listener is connected.
\<close>

lemma attempts_step:
  assumes "connectionAttempts s = n + connecting s"
    and "0 < connecting s \<longrightarrow> \<not> connected s"
    and "connecting s \<le> 1"
    and "\<not> isSuccess ev s"
    and "connecting (listenerStep ev s) \<le> 1"
  shows "connectionAttempts (listenerStep ev s)
           = n + (if isFailure ev s then 1 else 0) + connecting (listenerStep ev s)
         \<and> (0 < connecting (listenerStep ev s) \<longrightarrow> \<not> connected (listenerStep ev s))"
proof (cases ev)
  case ConnectCalled
  then show ?thesis using assms by (auto simp: connectBegin_def)
next
  case (ConnectSettled oc)
  then show ?thesis using assms
    by (cases oc) (auto simp: connectRejected_def connectResolved_def Let_def)
next
  case ErrorEvent
  then show ?thesis using assms by (auto simp: handleDisconnect_def Let_def)
next
  case DisconnectCalled
  then show ?thesis using assms
    by (cases "reconnectTimeout s") (auto simp: disconnectBegin_def Let_def)
next
  case (DisconnectSettled oc)
  then show ?thesis using assms by (cases oc) (auto simp: disconnectEnd_def)
next
  case (TimeoutFires h)
  then show ?thesis using assms by (auto simp: connectBegin_def Let_def)
qed

lemma attempts_run:
  assumes "connectionAttempts s = n + connecting s"
    and "0 < connecting s \<longrightarrow> \<not> connected s"
    and "noSuccess evs s"
    and "noOverlap evs s"
  shows "connectionAttempts (listenerRun evs s)
           = n + countFailures evs s + connecting (listenerRun evs s)
         \<and> (0 < connecting (listenerRun evs s) \<longrightarrow> \<not> connected (listenerRun evs s))
         \<and> connecting (listenerRun evs s) \<le> 1"
  using assms
proof (induction evs arbitrary: s n)
  case Nil
  then show ?case by simp
next
  case (Cons ev evs)
  from Cons.prems(4) have c: "connecting s \<le> 1" and no: "noOverlap evs (listenerStep ev s)"
    by simp_all
  from Cons.prems(3) have ns: "\<not> isSuccess ev s" and nss: "noSuccess evs (listenerStep ev s)"
    by simp_all
  from attempts_step[OF Cons.prems(1) Cons.prems(2) c ns noOverlap_head[OF no]]
  have a: "connectionAttempts (listenerStep ev s)
             = (n + (if isFailure ev s then 1 else 0)) + connecting (listenerStep ev s)"
    and b: "0 < connecting (listenerStep ev s) \<longrightarrow> \<not> connected (listenerStep ev s)"
    by simp_all
  from Cons.IH[OF a b nss no] show ?case by simp
qed

lemma failure_attempts:
  assumes "isFailure ev t"
    and "connectionAttempts t = n + connecting t"
    and "0 < connecting t \<longrightarrow> \<not> connected t"
    and "connecting t \<le> 1"
  shows "connectionAttempts (listenerStep ev t) = n + 1"
proof (cases ev)
  case (ConnectSettled oc)
  then show ?thesis using assms
    by (cases oc) (auto simp: connectRejected_def Let_def)
next
  case ErrorEvent
  then show ?thesis using assms by (auto simp: handleDisconnect_def Let_def)
qed (use assms in simp_all)

lemma step_failure_schedules:
  assumes "timerInv s" and "isFailure ev s"
  shows "pending (loop (listenerStep ev s)) =
           [(the (reconnectTimeout (listenerStep ev s)), backoffDelay (connectionAttempts (listenerStep ev s)))]
         \<and> reconnectTimeout (listenerStep ev s) \<noteq> None"
proof -
  have hr: "\<And>t. timerInv t \<Longrightarrow>
      pending (loop (handleReconnect (backoffDelay (connectionAttempts t)) t)) =
        [(the (reconnectTimeout (handleReconnect (backoffDelay (connectionAttempts t)) t)),
          backoffDelay (connectionAttempts (handleReconnect (backoffDelay (connectionAttempts t)) t)))]
      \<and> reconnectTimeout (handleReconnect (backoffDelay (connectionAttempts t)) t) \<noteq> None"
    using pending_handleReconnect by (simp add: reconnectTimeout_handleReconnect)
  show ?thesis
  proof (cases ev)
    case (ConnectSettled oc)
    let ?t = "s\<lparr>connecting := connecting s - 1, client := None, connected := False\<rparr>"
    have "timerInv ?t" using assms(1) by (simp add: timerInv_fields)
    from hr[OF this] show ?thesis using assms(2) ConnectSettled
      by (cases oc) (simp_all add: connectRejected_def Let_def)
  next
    case ErrorEvent
    let ?t = "s\<lparr>connected := False, client := None, connectionAttempts := connectionAttempts s + 1\<rparr>"
    have "timerInv ?t" using assms(1) by (simp add: timerInv_fields)
    from hr[OF this] show ?thesis using assms(2) ErrorEvent
      by (simp add: handleDisconnect_def Let_def)
  qed (use assms(2) in simp_all)
qed

lemma success_resets:
  "isSuccess ev t \<Longrightarrow> connectionAttempts (listenerStep ev t) = 0"
  by (cases ev) (auto simp: connectResolved_def Let_def)

text \<open>
  Claim C4, as amended. Take any history of the listener, with calls overlapping or
  not. Every connection failure leaves one retry scheduled, whose delay is
  \<open>min (1000 * 2^(A-1)) 30000\<close> milliseconds for the value \<open>A\<close> the attempt counter
  has when the failure has been handled (500 milliseconds when \<open>A\<close> is zero), which
  is at most 30000; and every successful connect leaves the attempt counter at zero.
  Now take a moment at which no connect attempt is under way and the attempt counter is
  zero (as initially, and after a successful connect when no other attempt is under
  way), and let events follow among which no connect succeeds and connect attempts do
  not overlap: each call of \<^verbatim>\<open>connect()\<close> settles before the next begins. Then at the
  \<open>K\<close>-th failure the retry that is scheduled, the only timeout pending, has the
  delay \<open>min (1000 * 2^(K-1)) 30000\<close> milliseconds.
\<close>

theorem listener_backoff:
  assumes "s = listenerRun history createNotificationListener"
    and "connecting s = 0"
    and "connectionAttempts s = 0"
    and "noSuccess evs s"
    and "noOverlap evs s"
    and "isFailure ev (listenerRun evs s)"
  shows "(let K = countFailures (evs @ [ev]) s; s' = listenerRun (evs @ [ev]) s
          in map snd (pending (loop s')) = [min (1000 * 2 ^ (K - 1)) 30000]
             \<and> scheduledDelay s' = Some (min (1000 * 2 ^ (K - 1)) 30000)
             \<and> min (1000 * 2 ^ (K - 1)) 30000 \<le> (30000::nat))
         \<and> (\<forall>past ev'. isFailure ev' (listenerRun past createNotificationListener) \<longrightarrow>
               (let t = listenerStep ev' (listenerRun past createNotificationListener);
                    A = connectionAttempts t;
                    delay = (if A = 0 then 500 else min (1000 * 2 ^ (A - 1)) 30000)
                in map snd (pending (loop t)) = [delay]
                   \<and> scheduledDelay t = Some delay
                   \<and> delay \<le> 30000))
         \<and> (\<forall>ev' t. isSuccess ev' t \<longrightarrow> connectionAttempts (listenerStep ev' t) = 0)"
proof -
  have inv: "timerInv (listenerRun evs s)"
    using assms(1) by (simp add: timerInv_run timerInv_init)
  have K: "countFailures (evs @ [ev]) s = countFailures evs s + 1"
    using assms(6) by (simp add: countFailures_append)
  have start: "connectionAttempts s = 0 + connecting s" "0 < connecting s \<longrightarrow> \<not> connected s"
    using assms(2,3) by simp_all
  from attempts_run[OF start assms(4) assms(5)]
  have t: "connectionAttempts (listenerRun evs s)
             = countFailures evs s + connecting (listenerRun evs s)"
    "0 < connecting (listenerRun evs s) \<longrightarrow> \<not> connected (listenerRun evs s)"
    "connecting (listenerRun evs s) \<le> 1"
    by simp_all
  have att: "connectionAttempts (listenerRun (evs @ [ev]) s) = countFailures (evs @ [ev]) s"
    using failure_attempts[OF assms(6) t] K by (simp add: run_append)
  have sched: "pending (loop (listenerRun (evs @ [ev]) s)) =
      [(the (reconnectTimeout (listenerRun (evs @ [ev]) s)), backoffDelay (countFailures (evs @ [ev]) s))]"
    and some: "reconnectTimeout (listenerRun (evs @ [ev]) s) \<noteq> None"
    using step_failure_schedules[OF inv assms(6)] att by (simp_all add: run_append)
  have bd: "backoffDelay (countFailures (evs @ [ev]) s) = min (1000 * 2 ^ (countFailures (evs @ [ev]) s - 1)) 30000"
    using K by (simp add: backoffDelay_def)
  have first: "(let K = countFailures (evs @ [ev]) s; s' = listenerRun (evs @ [ev]) s
          in map snd (pending (loop s')) = [min (1000 * 2 ^ (K - 1)) 30000]
             \<and> scheduledDelay s' = Some (min (1000 * 2 ^ (K - 1)) 30000)
             \<and> min (1000 * 2 ^ (K - 1)) 30000 \<le> (30000::nat))"
    using sched some bd by (auto simp: Let_def scheduledDelay_def)
  have always: "\<forall>past ev'. isFailure ev' (listenerRun past createNotificationListener) \<longrightarrow>
               (let t = listenerStep ev' (listenerRun past createNotificationListener);
                    A = connectionAttempts t;
                    delay = (if A = 0 then 500 else min (1000 * 2 ^ (A - 1)) 30000)
                in map snd (pending (loop t)) = [delay]
                   \<and> scheduledDelay t = Some delay
                   \<and> delay \<le> 30000)"
  proof (intro allI impI)
    fix past ev'
    assume f: "isFailure ev' (listenerRun past createNotificationListener)"
    have i: "timerInv (listenerRun past createNotificationListener)"
      by (simp add: timerInv_run timerInv_init)
    from step_failure_schedules[OF i f]
    show "(let t = listenerStep ev' (listenerRun past createNotificationListener);
               A = connectionAttempts t;
               delay = (if A = 0 then 500 else min (1000 * 2 ^ (A - 1)) 30000)
           in map snd (pending (loop t)) = [delay]
              \<and> scheduledDelay t = Some delay
              \<and> delay \<le> 30000)"
      by (auto simp: Let_def scheduledDelay_def backoffDelay_def)
  qed
  have succ: "\<forall>ev' t. isSuccess ev' t \<longrightarrow> connectionAttempts (listenerStep ev' t) = 0"
    by (simp add: success_resets)
  from first always succ show ?thesis by blast
qed

text \<open>
  When connect attempts overlap the delay is not that of the number of failures. Two
  calls of \<^verbatim>\<open>connect()\<close> are made one after the other on a new listener, and both
  await; the counter stands at two. When the first of them fails it is the first
  failure, and the retry is scheduled after 2000 milliseconds, not 1000. And when
  instead one of the two succeeds (which sets the counter to zero) and the other fails
  after it, that failure is the first since the success, and the retry is scheduled
  after 500 milliseconds.
\<close>

theorem overlapping_connects_delay:
  "connecting createNotificationListener = 0
   \<and> connectionAttempts createNotificationListener = 0
   \<and> noSuccess [ConnectCalled, ConnectCalled] createNotificationListener
   \<and> \<not> noOverlap [ConnectCalled, ConnectCalled] createNotificationListener
   \<and> isFailure (ConnectSettled ConnectFails)
       (listenerRun [ConnectCalled, ConnectCalled] createNotificationListener)
   \<and> countFailures [ConnectCalled, ConnectCalled, ConnectSettled ConnectFails]
       createNotificationListener = 1
   \<and> pending (loop (listenerRun [ConnectCalled, ConnectCalled, ConnectSettled ConnectFails]
       createNotificationListener)) = [(0, 2000)]
   \<and> scheduledDelay (listenerRun [ConnectCalled, ConnectCalled, ConnectSettled ConnectFails]
       createNotificationListener) = Some 2000
   \<and> min (1000 * 2 ^ (1 - 1)) 30000 = (1000::nat)
   \<and> isSuccess (ConnectSettled Listening)
       (listenerRun [ConnectCalled, ConnectCalled] createNotificationListener)
   \<and> connectionAttempts (listenerRun [ConnectCalled, ConnectCalled, ConnectSettled Listening]
       createNotificationListener) = 0
   \<and> isFailure (ConnectSettled ListenFails)
       (listenerRun [ConnectCalled, ConnectCalled, ConnectSettled Listening]
          createNotificationListener)
   \<and> countFailures [ConnectSettled ListenFails]
       (listenerRun [ConnectCalled, ConnectCalled, ConnectSettled Listening]
          createNotificationListener) = 1
   \<and> scheduledDelay (listenerRun
         [ConnectCalled, ConnectCalled, ConnectSettled Listening, ConnectSettled ListenFails]
         createNotificationListener) = Some 500"
  by (simp add: createNotificationListener_def noTimers_def connectBegin_def
      connectRejected_def connectResolved_def handleReconnect_def setTimeout_def
      clearTimeout_def isPending_def backoffDelay_def scheduledDelay_def Let_def)









theorem listener_backoff_witness:
  "(let s = listenerRun [ConnectCalled, ConnectSettled Listening] createNotificationListener;
        evs = [ErrorEvent, DisconnectCalled, ConnectCalled, ConnectSettled ConnectFails,
               TimeoutFires 1];
        ev = ConnectSettled ListenFails;
        s' = listenerRun (evs @ [ev]) s
    in connecting s = 0 \<and> connectionAttempts s = 0 \<and> noSuccess evs s \<and> noOverlap evs s
       \<and> isFailure ev (listenerRun evs s)
       \<and> countFailures (evs @ [ev]) s = 3
       \<and> map snd (pending (loop s')) = [4000]
       \<and> isSuccess (ConnectSettled Listening) (listenerStep (TimeoutFires 2) s')
       \<and> connectionAttempts (listenerStep (ConnectSettled Listening)
            (listenerStep (TimeoutFires 2) s')) = 0)"
proof -
  let ?s = "listenerRun [ConnectCalled, ConnectSettled Listening] createNotificationListener"
  let ?evs = "[ErrorEvent, DisconnectCalled, ConnectCalled, ConnectSettled ConnectFails,
               TimeoutFires 1]"
  let ?ev = "ConnectSettled ListenFails"
  note defs = createNotificationListener_def noTimers_def connectBegin_def
      connectRejected_def connectResolved_def handleReconnect_def handleDisconnect_def
      setTimeout_def clearTimeout_def isPending_def
      backoffDelay_def disconnectBegin_def Let_def
  have s: "?s = \<lparr>client = Some Client, connected = True, connectionAttempts = 0,
                 reconnectTimeout = None, loop = \<lparr>pending = [], fresh = 0\<rparr>,
                 connecting = 0, disconnecting = 0\<rparr>"
    by (simp add: defs)
  have h: "connecting ?s = 0" "connectionAttempts ?s = 0" "noSuccess ?evs ?s" "noOverlap ?evs ?s"
    "isFailure ?ev (listenerRun ?evs ?s)"
    unfolding s by (simp_all add: defs)
  have k: "countFailures (?evs @ [?ev]) ?s = 3"
    unfolding s by (simp add: defs)
  from listener_backoff [OF refl h]
  have "map snd (pending (loop (listenerRun (?evs @ [?ev]) ?s)))
          = [min (1000 * 2 ^ (countFailures (?evs @ [?ev]) ?s - 1)) 30000]"
    unfolding Let_def by blast
  with k have d: "map snd (pending (loop (listenerRun (?evs @ [?ev]) ?s))) = [4000]"
    by simp
  from listener_backoff [OF refl h]
  have r: "isSuccess (ConnectSettled Listening) (listenerStep (TimeoutFires 2) (listenerRun (?evs @ [?ev]) ?s))
      \<longrightarrow> connectionAttempts (listenerStep (ConnectSettled Listening)
            (listenerStep (TimeoutFires 2) (listenerRun (?evs @ [?ev]) ?s))) = 0"
    by blast
  have su: "isSuccess (ConnectSettled Listening) (listenerStep (TimeoutFires 2) (listenerRun (?evs @ [?ev]) ?s))"
    unfolding s by (simp add: defs)
  show ?thesis
    unfolding Let_def using h k d r su by blast
qed

text \<open>
  What \<^verbatim>\<open>disconnect()\<close> cancels is the retry pending when it is called. A transport
  error that arrives while it awaits the \<^verbatim>\<open>UNLISTEN\<close> query finds \<^verbatim>\<open>connected\<close> still
  set, and \<^verbatim>\<open>handleDisconnect\<close> schedules a retry, the only one pending, which is still
  pending when the disconnect settles.
\<close>

lemma transport_error_during_disconnect:
  "pending (loop (listenerRun
       [ConnectCalled, ConnectSettled Listening, DisconnectCalled] createNotificationListener)) = []
   \<and> disconnecting (listenerRun
       [ConnectCalled, ConnectSettled Listening, DisconnectCalled] createNotificationListener) = 1
   \<and> pending (loop (listenerRun
       [ConnectCalled, ConnectSettled Listening, DisconnectCalled, ErrorEvent,
        DisconnectSettled Succeeds] createNotificationListener)) = [(0, 1000)]
   \<and> \<not> connected (listenerRun
       [ConnectCalled, ConnectSettled Listening, DisconnectCalled, ErrorEvent,
        DisconnectSettled Succeeds] createNotificationListener)"
  by (simp add: createNotificationListener_def noTimers_def connectBegin_def
      connectResolved_def handleReconnect_def handleDisconnect_def setTimeout_def
      clearTimeout_def backoffDelay_def disconnectBegin_def disconnectEnd_def Let_def)

text \<open>A listener that is connected has its attempt counter at zero, whatever overlaps.\<close>

lemma connected_attempts_step:
  fixes s :: listener
  assumes "connected s \<longrightarrow> connectionAttempts s = 0"
  shows "connected (listenerStep ev s) \<longrightarrow> connectionAttempts (listenerStep ev s) = 0"
proof (cases ev)
  case (ConnectSettled oc)
  then show ?thesis using assms
    by (cases oc) (auto simp: connectResolved_def connectRejected_def Let_def)
next
  case DisconnectCalled
  then show ?thesis using assms
    by (cases "reconnectTimeout s") (auto simp: disconnectBegin_def Let_def)
next
  case (DisconnectSettled oc)
  then show ?thesis using assms by (cases oc) (auto simp: disconnectEnd_def)
qed (use assms in \<open>auto simp: connectBegin_def handleDisconnect_def Let_def\<close>)

lemma connected_attempts_run:
  fixes s :: listener
  assumes "connected s \<longrightarrow> connectionAttempts s = 0"
  shows "connected (listenerRun evs s) \<longrightarrow> connectionAttempts (listenerRun evs s) = 0"
  using assms
proof (induction evs arbitrary: s)
  case Nil
  then show ?case by simp
next
  case (Cons ev evs)
  from Cons.IH[OF connected_attempts_step[OF Cons.prems]] show ?case by simp
qed

lemma connected_attempts_zero:
  "connected (listenerRun evs createNotificationListener) \<longrightarrow>
   connectionAttempts (listenerRun evs createNotificationListener) = 0"
  by (rule connected_attempts_run) (simp add: createNotificationListener_def)

section \<open>Properties of the orchestrator\<close>

lemma fanOuts_append: "fanOuts (xs @ ys) = fanOuts xs @ fanOuts ys"
  by (induction xs rule: fanOuts.induct) simp_all

lemma promiseAll_Resolved: "(promiseAll ps = Resolved) = list_all (\<lambda>p. p = Resolved) ps"
  by (simp add: promiseAll_def)

lemma fanOut_stats:
  "(let s' = fanOut msg p s;
        ok = list_all (\<lambda>d. deliver d p = Resolved) (deliveryMechanisms s)
    in deliveryAttempts (stats s') = deliveryAttempts (stats s) + 1
       \<and> deliverySuccesses (stats s') = deliverySuccesses (stats s) + (if ok then 1 else 0)
       \<and> deliveryFailures (stats s') = deliveryFailures (stats s) + (if ok then 0 else 1)
       \<and> fanOuts (effects s') = fanOuts (effects s) @ [(p, map (\<lambda>d. deliver d p) (deliveryMechanisms s))])"
  by (cases "promiseAll (map (\<lambda>d. deliver d p) (deliveryMechanisms s))")
     (auto simp: fanOut_def Let_def fanOuts_append promiseAll_def list_all_iff split: if_splits)

lemma fanOut_frame:
  "deliveryMechanisms (fanOut msg p s) = deliveryMechanisms s"
  "eventBuffer (fanOut msg p s) = eventBuffer s"
  "batchTimeout (fanOut msg p s) = batchTimeout s"
  "timeouts (fanOut msg p s) = timeouts s"
  "config (fanOut msg p s) = config s"
  by (simp_all add: fanOut_def Let_def split: promise.splits)

lemma statsInv_fanOut: "statsInv sinks s \<Longrightarrow> statsInv sinks (fanOut msg p s)"
  using fanOut_stats[of msg p s]
  by (auto simp: statsInv_def Let_def fanOut_frame succeeded_def list_all_iff split: if_splits)

lemma statsInv_frame:
  "statsInv sinks (s\<lparr>eventBuffer := b\<rparr>) = statsInv sinks s"
  "statsInv sinks (s\<lparr>batchTimeout := bt\<rparr>) = statsInv sinks s"
  "statsInv sinks (s\<lparr>timeouts := t\<rparr>) = statsInv sinks s"
  "statsInv sinks (s\<lparr>config := c\<rparr>) = statsInv sinks s"
  by (simp_all add: statsInv_def)

lemma statsInv_deliverBatch: "statsInv sinks s \<Longrightarrow> statsInv sinks (deliverBatch s)"
  by (auto simp: deliverBatch_def Let_def statsInv_frame statsInv_fanOut split: option.splits)

lemma statsInv_bufferEvent: "statsInv sinks s \<Longrightarrow> statsInv sinks (bufferEvent ev s)"
  by (auto simp: bufferEvent_def Let_def statsInv_frame statsInv_deliverBatch split: prod.splits)

lemma statsInv_updateEventStats: "statsInv sinks s \<Longrightarrow> statsInv sinks (updateEventStats ev s)"
  by (simp add: statsInv_def updateEventStats_def Let_def)

lemma statsInv_processEvent: "statsInv sinks s \<Longrightarrow> statsInv sinks (snd (processEvent compile ev s))"
  by (auto simp: processEvent_def Let_def statsInv_frame statsInv_bufferEvent deliverEvent_def
      statsInv_fanOut statsInv_updateEventStats split: prod.splits sum.splits option.splits)

lemma statsInv_batchTimerFires: "statsInv sinks s \<Longrightarrow> statsInv sinks (batchTimerFires h s)"
  by (simp add: batchTimerFires_def statsInv_frame statsInv_deliverBatch)

lemma statsInv_step: "statsInv sinks s \<Longrightarrow> statsInv sinks (notifierStep compile e s)"
  by (cases e) (simp_all add: statsInv_processEvent statsInv_batchTimerFires)

lemma statsInv_run: "statsInv sinks s \<Longrightarrow> statsInv sinks (notifierRun compile es s)"
  by (induction es arbitrary: s) (simp_all add: statsInv_step)

lemma statsInv_running: "statsInv sinks (running cfg a sinks)"
  by (simp add: statsInv_def running_def initializeStats_def)

lemma deliverBatch_stats:
  "(let s' = deliverBatch s;
        ok = list_all (\<lambda>d. deliver d (Batch (eventBuffer s)) = Resolved) (deliveryMechanisms s)
    in if eventBuffer s = [] then stats s' = stats s \<and> effects s' = effects s
       else deliveryAttempts (stats s') = deliveryAttempts (stats s) + 1
       \<and> deliverySuccesses (stats s') = deliverySuccesses (stats s) + (if ok then 1 else 0)
       \<and> deliveryFailures (stats s') = deliveryFailures (stats s) + (if ok then 0 else 1))"
proof (cases "batchTimeout s")
  case None
  then show ?thesis
    using fanOut_stats[of "''Failed to deliver batch of events''" "Batch (eventBuffer s)" "s\<lparr>eventBuffer := []\<rparr>"]
    by (simp add: deliverBatch_def Let_def)
next
  case (Some h)
  then show ?thesis
    using fanOut_stats[of "''Failed to deliver batch of events''" "Batch (eventBuffer s)"
        "s\<lparr>timeouts := clearTimeout h (timeouts s), batchTimeout := None, eventBuffer := []\<rparr>"]
    by (simp add: deliverBatch_def Let_def)
qed

text \<open>
  Claim C3. A call of \<^verbatim>\<open>deliverEvent\<close>, and a call of \<^verbatim>\<open>deliverBatch\<close> with a
  batch to deliver, adds exactly one to \<^verbatim>\<open>deliveryAttempts\<close>; it adds one to
  \<^verbatim>\<open>deliverySuccesses\<close> when every sink's \<^verbatim>\<open>deliver\<close> resolves and one to
  \<^verbatim>\<open>deliveryFailures\<close> otherwise, whatever the number of sinks and of sinks that
  failed (\<^verbatim>\<open>deliverBatch\<close> on an empty buffer delivers nothing and counts nothing).
  After any run of a started orchestrator every fan-out made holds each sink's outcome,
  and the counters are the number of fan-outs, of fan-outs in which every sink resolved,
  and of the others: after \<open>F\<close> failed delivery calls \<^verbatim>\<open>deliveryFailures\<close> is \<open>F\<close>.
\<close>

theorem delivery_counters:
  "(let s' = deliverEvent ev s;
        ok = list_all (\<lambda>d. deliver d (Single ev) = Resolved) (deliveryMechanisms s)
    in deliveryAttempts (stats s') = deliveryAttempts (stats s) + 1
       \<and> deliverySuccesses (stats s') = deliverySuccesses (stats s) + (if ok then 1 else 0)
       \<and> deliveryFailures (stats s') = deliveryFailures (stats s) + (if ok then 0 else 1))
   \<and> (let s' = deliverBatch s;
           ok = list_all (\<lambda>d. deliver d (Batch (eventBuffer s)) = Resolved) (deliveryMechanisms s)
       in if eventBuffer s = [] then stats s' = stats s \<and> effects s' = effects s
          else deliveryAttempts (stats s') = deliveryAttempts (stats s) + 1
               \<and> deliverySuccesses (stats s') = deliverySuccesses (stats s) + (if ok then 1 else 0)
               \<and> deliveryFailures (stats s') = deliveryFailures (stats s) + (if ok then 0 else 1))
   \<and> (let r = notifierRun compile evs (running cfg a sinks);
           calls = fanOuts (effects r)
       in list_all (\<lambda>call. snd call = map (\<lambda>d. deliver d (fst call)) sinks) calls
          \<and> deliveryAttempts (stats r) = length calls
          \<and> deliverySuccesses (stats r) = length (filter succeeded calls)
          \<and> deliveryFailures (stats r) = length (filter (\<lambda>c. \<not> succeeded c) calls))"
proof -
  have inv: "statsInv sinks (notifierRun compile evs (running cfg a sinks))"
    by (simp add: statsInv_run statsInv_running)
  show ?thesis
    using fanOut_stats[of "''Failed to deliver event''" "Single ev" s] deliverBatch_stats[of s] inv
    by (simp add: Let_def deliverEvent_def statsInv_def)
qed

lemma batchInv_deliverBatch:
  assumes "\<forall>p \<in> set (pending (timeouts s)). Some (fst p) = batchTimeout s"
  shows "batchInv (deliverBatch s)"
proof (cases "batchTimeout s")
  case None
  with assms have "pending (timeouts s) = []"
    by (cases "pending (timeouts s)") auto
  with None show ?thesis
    by (simp add: batchInv_def deliverBatch_def Let_def fanOut_frame)
next
  case (Some h)
  with assms have "filter (\<lambda>p. fst p \<noteq> h) (pending (timeouts s)) = []"
    by (auto simp: filter_empty_conv)
  with Some show ?thesis
    by (simp add: batchInv_def deliverBatch_def Let_def fanOut_frame clearTimeout_def)
qed

lemma batchInv_weaken:
  "batchInv s \<Longrightarrow> \<forall>p \<in> set (pending (timeouts s)). Some (fst p) = batchTimeout s"
proof (cases "batchTimeout s")
  case None
  assume "batchInv s"
  with None show ?thesis by (simp add: batchInv_def)
next
  case (Some h)
  assume "batchInv s"
  with Some have "map fst (pending (timeouts s)) = [h]" by (simp add: batchInv_def)
  then have "set (map fst (pending (timeouts s))) = {h}" by simp
  then have "\<forall>p \<in> set (pending (timeouts s)). fst p = h" by auto
  with Some show ?thesis by simp
qed

lemma batchInv_bufferEvent: "batchInv s \<Longrightarrow> batchInv (bufferEvent ev s)"
proof -
  assume inv: "batchInv s"
  let ?s1 = "s\<lparr>eventBuffer := eventBuffer s @ [ev]\<rparr>"
  have w: "\<forall>p \<in> set (pending (timeouts ?s1)). Some (fst p) = batchTimeout ?s1"
    using batchInv_weaken[OF inv] by simp
  show ?thesis
  proof (cases "orDefault (batchSize (config s)) 100 \<le> int (length (eventBuffer s)) + 1")
    case True
    then show ?thesis using batchInv_deliverBatch[OF w] by (simp add: bufferEvent_def Let_def)
  next
    case False
    then show ?thesis using inv
      by (cases "batchTimeout s")
         (auto simp: bufferEvent_def Let_def batchInv_def setTimeout_def)
  qed
qed

lemma batchInv_processEvent: "batchInv s \<Longrightarrow> batchInv (snd (processEvent compile ev s))"
proof -
  assume inv: "batchInv s"
  have 1: "\<And>c. batchInv ((updateEventStats ev s)\<lparr>config := c\<rparr>)"
    using inv by (simp add: batchInv_def updateEventStats_def Let_def)
  have 2: "\<And>t. batchInv t \<Longrightarrow> batchInv (deliverEvent e t)" for e
    by (simp add: batchInv_def deliverEvent_def fanOut_frame)
  show ?thesis
    by (auto simp: processEvent_def Let_def 1 2 batchInv_bufferEvent
        split: prod.splits sum.splits option.splits)
qed

lemma batchInv_batchTimerFires: "batchInv s \<Longrightarrow> batchInv (batchTimerFires h s)"
proof (cases "isPending h (timeouts s)")
  case False
  then show "batchInv s \<Longrightarrow> ?thesis" by (simp add: batchTimerFires_def)
next
  case True
  assume inv: "batchInv s"
  have "\<forall>p \<in> set (pending (timeouts (s\<lparr>timeouts := clearTimeout h (timeouts s)\<rparr>))).
          Some (fst p) = batchTimeout (s\<lparr>timeouts := clearTimeout h (timeouts s)\<rparr>)"
    using batchInv_weaken[OF inv] by (auto simp: clearTimeout_def)
  from batchInv_deliverBatch[OF this] True show ?thesis by (simp add: batchTimerFires_def)
qed

lemma batchInv_step: "batchInv s \<Longrightarrow> batchInv (notifierStep compile e s)"
  by (cases e) (simp_all add: batchInv_processEvent batchInv_batchTimerFires)

lemma batchInv_run: "batchInv s \<Longrightarrow> batchInv (notifierRun compile es s)"
  by (induction es arbitrary: s) (simp_all add: batchInv_step)

lemma batchInv_running: "batchInv (running cfg a sinks)"
  by (simp add: batchInv_def running_def noTimers_def)

lemma bufferEvent_below:
  assumes "int (length (eventBuffer s)) + 1 < orDefault (batchSize (config s)) 100"
  shows "bufferEvent ev s =
          (case batchTimeout s of
             None \<Rightarrow> s\<lparr>eventBuffer := eventBuffer s @ [ev],
                        batchTimeout := Some (fresh (timeouts s)),
                        timeouts := \<lparr>pending = pending (timeouts s) @
                            [(fresh (timeouts s), nat (orDefault (batchTimeWindowMs (config s)) 1000))],
                          fresh = Suc (fresh (timeouts s))\<rparr>\<rparr>
           | Some h \<Rightarrow> s\<lparr>eventBuffer := eventBuffer s @ [ev]\<rparr>)"
  using assms by (cases "batchTimeout s") (simp_all add: bufferEvent_def Let_def setTimeout_def)

lemma bufferAll_armed:
  assumes "batchTimeout s \<noteq> None"
    and "int (length (eventBuffer s)) + int (length es) < orDefault (batchSize (config s)) 100"
  shows "bufferAll es s = s\<lparr>eventBuffer := eventBuffer s @ es\<rparr>"
  using assms
proof (induction es arbitrary: s)
  case Nil
  then show ?case by simp
next
  case (Cons e es)
  from Cons.prems have b: "int (length (eventBuffer s)) + 1 < orDefault (batchSize (config s)) 100"
    by simp
  obtain h where h: "batchTimeout s = Some h" using Cons.prems(1) by auto
  have step: "bufferEvent e s = s\<lparr>eventBuffer := eventBuffer s @ [e]\<rparr>"
    using bufferEvent_below[OF b] h by simp
  have "bufferAll es (s\<lparr>eventBuffer := eventBuffer s @ [e]\<rparr>) =
        (s\<lparr>eventBuffer := eventBuffer s @ [e]\<rparr>)\<lparr>eventBuffer := eventBuffer (s\<lparr>eventBuffer := eventBuffer s @ [e]\<rparr>) @ es\<rparr>"
    using Cons.prems by (intro Cons.IH) simp_all
  then show ?case using step by simp
qed

lemma bufferAll_snoc: "bufferAll (xs @ [x]) s = bufferEvent x (bufferAll xs s)"
  by (induction xs arbitrary: s) simp_all

lemma bufferAll_below:
  assumes "eventBuffer s = []" and "batchTimeout s = None" and "es \<noteq> []"
    and "int (length es) < orDefault (batchSize (config s)) 100"
  shows "bufferAll es s =
           s\<lparr>eventBuffer := es,
             batchTimeout := Some (fresh (timeouts s)),
             timeouts := \<lparr>pending = pending (timeouts s) @
                 [(fresh (timeouts s), nat (orDefault (batchTimeWindowMs (config s)) 1000))],
               fresh = Suc (fresh (timeouts s))\<rparr>\<rparr>"
proof -
  obtain e rest where es: "es = e # rest" using assms(3) by (cases es) auto
  have b: "int (length (eventBuffer s)) + 1 < orDefault (batchSize (config s)) 100"
    using assms(1,4) es by simp
  let ?s1 = "s\<lparr>eventBuffer := [e],
             batchTimeout := Some (fresh (timeouts s)),
             timeouts := \<lparr>pending = pending (timeouts s) @
                 [(fresh (timeouts s), nat (orDefault (batchTimeWindowMs (config s)) 1000))],
               fresh = Suc (fresh (timeouts s))\<rparr>\<rparr>"
  have 1: "bufferEvent e s = ?s1"
    using bufferEvent_below[OF b] assms(1,2) by simp
  have "bufferAll rest ?s1 = ?s1\<lparr>eventBuffer := eventBuffer ?s1 @ rest\<rparr>"
    using assms(4) es by (intro bufferAll_armed) simp_all
  then show ?thesis using 1 es by simp
qed

lemma batchInv_empty:
  assumes "batchInv s" and "eventBuffer s = []"
  shows "batchTimeout s = None" and "pending (timeouts s) = []"
proof -
  from assms show 1: "batchTimeout s = None" by (simp add: batchInv_def)
  from assms(1) have "map fst (pending (timeouts s)) = (case batchTimeout s of None \<Rightarrow> [] | Some h \<Rightarrow> [h])"
    by (simp add: batchInv_def)
  with 1 show "pending (timeouts s) = []" by simp
qed

lemma deliverBatch_flush:
  assumes "eventBuffer t \<noteq> []"
    and "\<forall>p \<in> set (pending (timeouts t)). Some (fst p) = batchTimeout t"
  shows "fanOuts (effects (deliverBatch t)) =
           fanOuts (effects t) @ [(Batch (eventBuffer t),
              map (\<lambda>d. deliver d (Batch (eventBuffer t))) (deliveryMechanisms t))]
         \<and> eventBuffer (deliverBatch t) = [] \<and> batchTimeout (deliverBatch t) = None
         \<and> pending (timeouts (deliverBatch t)) = []"
proof -
  have inv: "batchInv (deliverBatch t)" using batchInv_deliverBatch[OF assms(2)] .
  have fo: "fanOuts (effects (deliverBatch t)) =
           fanOuts (effects t) @ [(Batch (eventBuffer t),
              map (\<lambda>d. deliver d (Batch (eventBuffer t))) (deliveryMechanisms t))]"
  proof (cases "batchTimeout t")
    case None
    then show ?thesis
      using assms(1) fanOut_stats[of "''Failed to deliver batch of events''" "Batch (eventBuffer t)"
          "t\<lparr>eventBuffer := []\<rparr>"]
      by (simp add: deliverBatch_def Let_def)
  next
    case (Some h)
    then show ?thesis
      using assms(1) fanOut_stats[of "''Failed to deliver batch of events''" "Batch (eventBuffer t)"
          "t\<lparr>timeouts := clearTimeout h (timeouts t), batchTimeout := None, eventBuffer := []\<rparr>"]
      by (simp add: deliverBatch_def Let_def)
  qed
  have eb: "eventBuffer (deliverBatch t) = []"
    using assms(1) by (cases "batchTimeout t") (simp_all add: deliverBatch_def Let_def fanOut_frame)
  from batchInv_empty[OF inv eb] fo eb show ?thesis by simp
qed

lemma bufferEvent_at_size:
  assumes "int (length (eventBuffer t)) + 1 = orDefault (batchSize (config t)) 100"
  shows "bufferEvent ev t = deliverBatch (t\<lparr>eventBuffer := eventBuffer t @ [ev]\<rparr>)"
  using assms by (simp add: bufferEvent_def Let_def)

text \<open>
  Up to the size at which the orchestrator flushes, as \<open>bufferEvent\<close> computes it.
\<close>

lemma bufferAll_up_to_size:
  assumes "s0 = notifierRun compile history (running cfg a sinks)"
    and "eventBuffer s0 = []"
    and "es \<noteq> []"
    and "int (length es) \<le> orDefault (batchSize (config s0)) 100"
  shows "(let s' = bufferAll es s0;
              S = orDefault (batchSize (config s0)) 100;
              W = orDefault (batchTimeWindowMs (config s0)) 1000
          in if int (length es) = S
             then fanOuts (effects s') =
                    fanOuts (effects s0)
                    @ [(Batch es, map (\<lambda>d. deliver d (Batch es)) (deliveryMechanisms s0))]
                  \<and> eventBuffer s' = [] \<and> batchTimeout s' = None
                  \<and> pending (timeouts s') = []
             else eventBuffer s' = es \<and> effects s' = effects s0
                  \<and> batchTimeout s' = Some (fresh (timeouts s0))
                  \<and> pending (timeouts s') = [(fresh (timeouts s0), nat W)]
                  \<and> fresh (timeouts s') = Suc (fresh (timeouts s0)))"
proof -
  have inv: "batchInv s0"
    using assms(1) by (simp add: batchInv_run batchInv_running)
  note bt = batchInv_empty(1)[OF inv assms(2)] and pe = batchInv_empty(2)[OF inv assms(2)]
  show ?thesis
  proof (cases "int (length es) = orDefault (batchSize (config s0)) 100")
    case False
    with assms(4) have lt: "int (length es) < orDefault (batchSize (config s0)) 100" by simp
    show ?thesis using False bufferAll_below[OF assms(2) bt assms(3) lt] pe
      by (simp add: Let_def)
  next
    case True
    obtain front lst where es: "es = front @ [lst]"
      using assms(3) by (cases es rule: rev_cases) auto
    define t where "t = bufferAll front s0"
    have t: "eventBuffer t = front \<and> config t = config s0 \<and> effects t = effects s0
        \<and> deliveryMechanisms t = deliveryMechanisms s0
        \<and> (\<forall>p \<in> set (pending (timeouts t)). Some (fst p) = batchTimeout t)"
    proof (cases "front = []")
      case True
      then show ?thesis using assms(2) bt pe by (simp add: t_def)
    next
      case False
      have "int (length front) < orDefault (batchSize (config s0)) 100"
        using \<open>int (length es) = orDefault (batchSize (config s0)) 100\<close> es by simp
      from bufferAll_below[OF assms(2) bt False this] pe show ?thesis
        by (simp add: t_def)
    qed
    have sz: "int (length (eventBuffer t)) + 1 = orDefault (batchSize (config t)) 100"
      using t True es by simp
    let ?u = "t\<lparr>eventBuffer := eventBuffer t @ [lst]\<rparr>"
    have "bufferAll es s0 = deliverBatch ?u"
      using bufferEvent_at_size[OF sz] by (simp add: es bufferAll_snoc t_def)
    moreover have "eventBuffer ?u \<noteq> []" by simp
    moreover have "\<forall>p \<in> set (pending (timeouts ?u)). Some (fst p) = batchTimeout ?u"
      using t by simp
    ultimately show ?thesis
      using deliverBatch_flush[of ?u] t True es by (simp add: Let_def)
  qed
qed

lemma deliverBatch_config: "config (deliverBatch s) = config s"
  by (cases "batchTimeout s") (simp_all add: deliverBatch_def Let_def fanOut_frame)

lemma bufferEvent_config: "config (bufferEvent ev s) = config s"
  by (simp add: bufferEvent_def Let_def deliverBatch_config split: prod.splits)

lemma notifierStep_batch_config:
  "batchSize (config (notifierStep compile e s)) = batchSize (config s)
   \<and> batchTimeWindowMs (config (notifierStep compile e s)) = batchTimeWindowMs (config s)"
proof (cases e)
  case (Incoming ev)
  have c: "config (updateEventStats ev s) = config s"
    by (simp add: updateEventStats_def Let_def)
  show ?thesis using Incoming c
    by (auto simp: processEvent_def Let_def bufferEvent_config deliverEvent_def fanOut_frame
        split: prod.splits sum.splits option.splits)
next
  case (BatchTimer h)
  then show ?thesis by (simp add: batchTimerFires_def deliverBatch_config)
qed

lemma notifierRun_batch_config:
  "batchSize (config (notifierRun compile h s)) = batchSize (config s)
   \<and> batchTimeWindowMs (config (notifierRun compile h s)) = batchTimeWindowMs (config s)"
  by (induction h arbitrary: s) (simp_all add: notifierStep_batch_config)

text \<open>
  Claim C5. Take an orchestrator started with a configuration \<open>cfg\<close>, in any state it
  can reach in which the buffer is empty (initially, and after every flush). Let \<open>S\<close>
  be the batch size: the configured \<^verbatim>\<open>batchSize\<close>, and 100 when none is configured (or
  0 is); and let \<open>W\<close> be the window: the configured \<^verbatim>\<open>batchTimeWindowMs\<close>, and 1000
  when none is configured (or 0 is). Let events be buffered one after the other, at
  most \<open>S\<close> of them. While fewer than \<open>S\<close> are buffered nothing is delivered, the
  buffer holds the events in arrival order, and exactly one timeout is pending, armed
  for \<open>W\<close> milliseconds by the first event (one handle was handed out). When the
  \<open>S\<close>-th arrives exactly one fan-out is added, its batch the \<open>S\<close> events in
  arrival order; the buffer is empty and no timeout is pending afterwards.
\<close>

theorem batch_flush_at_size:
  assumes "s0 = notifierRun compile history (running cfg a sinks)"
    and "eventBuffer s0 = []"
    and "S = (case batchSize cfg of None \<Rightarrow> 100 | Some n \<Rightarrow> if n = 0 then 100 else n)"
    and "W = (case batchTimeWindowMs cfg of
                None \<Rightarrow> 1000 | Some n \<Rightarrow> if n = 0 then 1000 else n)"
    and "es \<noteq> []"
    and "int (length es) \<le> S"
  shows "(let s' = bufferAll es s0
          in if int (length es) = S
             then fanOuts (effects s') =
                    fanOuts (effects s0)
                    @ [(Batch es, map (\<lambda>d. deliver d (Batch es)) (deliveryMechanisms s0))]
                  \<and> eventBuffer s' = [] \<and> batchTimeout s' = None
                  \<and> pending (timeouts s') = []
             else eventBuffer s' = es \<and> effects s' = effects s0
                  \<and> batchTimeout s' = Some (fresh (timeouts s0))
                  \<and> pending (timeouts s') = [(fresh (timeouts s0), nat W)]
                  \<and> fresh (timeouts s') = Suc (fresh (timeouts s0)))"
proof -
  have c: "batchSize (config s0) = batchSize cfg"
    "batchTimeWindowMs (config s0) = batchTimeWindowMs cfg"
    using assms(1) notifierRun_batch_config[of compile history "running cfg a sinks"]
    by (simp_all add: running_def)
  have S: "orDefault (batchSize (config s0)) 100 = S"
    using assms(3) c(1) by (simp add: orDefault_def)
  have W: "orDefault (batchTimeWindowMs (config s0)) 1000 = W"
    using assms(4) c(2) by (simp add: orDefault_def)
  have le: "int (length es) \<le> orDefault (batchSize (config s0)) 100"
    using assms(6) S by simp
  from bufferAll_up_to_size[OF assms(1) assms(2) assms(5) le]
  show ?thesis unfolding Let_def S W .
qed

lemmas ex_defs = literalMatcher_def literalCompiler_def exampleEvent_def redactPassword_def
  exampleSink_def exampleConfig_def exampleAdapter_def

lemmas orch_defs = running_def initializeStats_def noTimers_def processEvent_def
  updateEventStats_def applyTransformations_def testPattern_def newRegExp_def regExpTest_def
  bufferEvent_def deliverBatch_def deliverEvent_def fanOut_def deliver_def promiseAll_def
  orDefault_def setTimeout_def clearTimeout_def isPending_def batchTimerFires_def
  cleanup_def cleanupAdapter_def stop_def close_def Let_def

lemma testPattern_stateless:
  assumes "stateless compile t"
  shows "testPattern compile (tablePattern t) tbl
           = Inr (patternMatches compile (tablePattern t) tbl, tablePattern t)"
  using assms
  by (cases "tablePattern t")
     (auto simp: stateless_def testPattern_def patternMatches_def newRegExp_def regExpTest_def
        Let_def split: option.splits)

lemma transformLoop_pipeline:
  assumes "list_all (stateless compile) ts"
  shows "transformLoop compile tbl ts current = (Inr (pipeline (matching compile tbl ts) current), ts)"
  using assms
proof (induction ts arbitrary: current)
  case Nil
  then show ?case by (simp add: matching_def)
next
  case (Cons t ts)
  then have t: "stateless compile t" and ts: "list_all (stateless compile) ts" by simp_all
  have upd: "t\<lparr>tablePattern := tablePattern t\<rparr> = t" by simp
  show ?case
  proof (cases "patternMatches compile (tablePattern t) tbl")
    case False
    then show ?thesis
      using testPattern_stateless[OF t, of tbl] Cons.IH[OF ts] upd
      by (simp add: matching_def Let_def)
  next
    case True
    then show ?thesis
      using testPattern_stateless[OF t, of tbl] Cons.IH[OF ts] upd
      by (cases "transform t current") (simp_all add: matching_def Let_def)
  qed
qed

lemma applyTransformations_pipeline:
  assumes "cfg = Some ts" and "list_all (stateless compile) ts"
  shows "applyTransformations compile cfg ev
           = (Inr (pipeline (matching compile (source_table ev) ts) ev), cfg)"
  using assms transformLoop_pipeline[OF assms(2)]
  by (cases ts) (simp_all add: applyTransformations_def matching_def)

lemma processEvent_pipeline:
  assumes "transformations (config s) = Some ts" and "list_all (stateless compile) ts"
  shows "processEvent compile ev s =
           (Resolved,
            (case pipeline (matching compile (source_table ev) ts) ev of
               None \<Rightarrow> updateEventStats ev s
             | Some transformedEvent \<Rightarrow>
                 if batchingEnabled (config s)
                 then bufferEvent transformedEvent (updateEventStats ev s)
                 else deliverEvent transformedEvent (updateEventStats ev s)))"
proof -
  have c: "config (updateEventStats ev s) = config s"
    by (simp add: updateEventStats_def Let_def)
  have cfg: "(config s)\<lparr>transformations := Some ts\<rparr> = config s"
    using assms(1) by (metis NotifierConfig.surjective NotifierConfig.update_convs(4))
  have same: "(updateEventStats ev s)\<lparr>config := config s\<rparr> = updateEventStats ev s"
    using c by (metis notifier.surjective notifier.update_convs(1))
  show ?thesis
    using applyTransformations_pipeline[OF refl assms(2), of ev]
    by (simp add: processEvent_def Let_def c cfg same assms(1) split: option.splits)
qed

lemma processEvent_untransformed:
  assumes "transformations (config s) = None"
  shows "processEvent compile ev s =
           (Resolved, if batchingEnabled (config s)
                      then bufferEvent ev (updateEventStats ev s)
                      else deliverEvent ev (updateEventStats ev s))"
proof -
  have c: "config (updateEventStats ev s) = config s"
    by (simp add: updateEventStats_def Let_def)
  have cfg: "(config s)\<lparr>transformations := None\<rparr> = config s"
    using assms by (metis NotifierConfig.surjective NotifierConfig.update_convs(4))
  have same: "(updateEventStats ev s)\<lparr>config := config s\<rparr> = updateEventStats ev s"
    using c by (metis notifier.surjective notifier.update_convs(1))
  show ?thesis
    by (simp add: processEvent_def applyTransformations_def Let_def c cfg same assms)
qed

lemma processEvent_dropped:
  assumes "transformations (config s) = Some ts" and "list_all (stateless compile) ts"
    and "pipeline (matching compile (source_table ev) ts) ev = None"
  shows "effects (snd (processEvent compile ev s)) = effects s
         \<and> eventBuffer (snd (processEvent compile ev s)) = eventBuffer s"
  using processEvent_pipeline[OF assms(1,2), of ev] assms(3)
  by (simp add: updateEventStats_def Let_def)

text \<open>
  Claim C6, at an input where the code departs from it. The configuration holds one
  transformation whose pattern is the \<^verbatim>\<open>RegExp\<close> object \<^verbatim>\<open>/users/g\<close> and whose
  transform redacts the password; batching is off. Two events on table \<^verbatim>\<open>users\<close>
  arrive. The first is delivered redacted. \<^verbatim>\<open>test\<close> has left \<^verbatim>\<open>lastIndex = 5\<close> in the
  pattern object, the second \<^verbatim>\<open>test\<close> searches from there and fails, and the second
  event is delivered with its password, although the pattern matches its table name.
  (For stateless entries the code is the specification's pipeline:
  \<open>processEvent_pipeline\<close>.)
\<close>

theorem global_pattern_skips_transform:
  "(let usersPattern = PatternRegExp \<lparr>matcher = literalMatcher ''users'', global = True,
                                      sticky = False, lastIndex = 0\<rparr>;
        e1 = exampleEvent ''e1'' ''users'';
        e2 = exampleEvent ''e2'' ''users''
    in patternMatches literalCompiler usersPattern (source_table e2)
       \<and> fanOuts (effects (notifierRun literalCompiler [Incoming e1, Incoming e2]
            (running
               (exampleConfig False None
                  (Some [\<lparr>tablePattern = usersPattern, transform = redactPassword\<rparr>]))
               (exampleAdapter True) [exampleSink True])))
         = [(Single (e1\<lparr>data_new := JObj [(''password'', JStr ''***REDACTED***'')]\<rparr>),
             [Resolved]),
            (Single e2, [Resolved])])"
  by (simp add: ex_defs orch_defs patternMatches_def)

lemma stop_never_rejects: "fst (stop s) = Resolved"
  by (simp add: stop_def)

lemma cleanupAdapter_effects:
  "effects (cleanupAdapter s) =
     effects s @
     (case adapter s of
        None \<Rightarrow> []
      | Some a \<Rightarrow>
          if \<not> stop_resolves a
          then [AdapterStop Rejected, ErrorLog ''Error during adapter cleanup'']
          else if teardown_resolves a
          then [AdapterStop Resolved, AdapterTeardown Resolved]
          else [AdapterStop Resolved, AdapterTeardown Rejected,
                ErrorLog ''Error during adapter cleanup''])"
  by (simp add: cleanupAdapter_def Let_def split: option.splits)

lemma cleanupAdapter_frame:
  "deliveryMechanisms (cleanupAdapter s) = deliveryMechanisms s"
  "batchTimeout (cleanupAdapter s) = batchTimeout s"
  by (simp_all add: cleanupAdapter_def Let_def split: option.splits)

lemma closedSinks_append: "closedSinks (xs @ ys) = closedSinks xs @ closedSinks ys"
  by (induction xs rule: closedSinks.induct) simp_all

lemma closeAll_every_sink: "closedSinks (closeAll i ds) = [i..<i + length ds]"
proof (induction ds arbitrary: i)
  case Nil
  then show ?case by simp
next
  case (Cons d ds)
  have "closedSinks (closeAll i (d # ds)) = i # closedSinks (closeAll (Suc i) ds)"
    by (cases "fst (close d)") (simp_all add: closedSinks_append)
  with Cons.IH[of "Suc i"] show ?case by (simp add: upt_rec)
qed

lemma fanOut_mech: "deliveryMechanisms (fanOut msg p s) = deliveryMechanisms s"
  by (simp add: fanOut_def Let_def split: promise.splits)

lemma deliverBatch_mech: "deliveryMechanisms (deliverBatch s) = deliveryMechanisms s"
  by (simp add: deliverBatch_def Let_def fanOut_mech split: option.splits)

lemma cleanup_effects:
  "effects (cleanup s) =
     effects (cleanupAdapter (if 0 < length (eventBuffer s) then deliverBatch s else s))
     @ closeAll 0 (deliveryMechanisms s)"
  by (simp add: cleanup_def Let_def cleanupAdapter_frame deliverBatch_mech split: option.splits)

text \<open>
  Claim C9, at an input where the code departs from it. The adapter's \<^verbatim>\<open>stop()\<close>
  rejects. \<^verbatim>\<open>stop()\<close> of the orchestrator resolves, the failure is logged and the sink
  is closed, but \<^verbatim>\<open>teardownChangeNotifications()\<close> is never called: it stands in the
  same \<^verbatim>\<open>try\<close> block after \<^verbatim>\<open>stop()\<close>. (The calls \<^verbatim>\<open>cleanup()\<close> makes in
  general: \<open>cleanup_effects\<close>, \<open>cleanupAdapter_effects\<close>, \<open>closeAll_every_sink\<close>.)
\<close>

theorem stop_skips_teardown:
  "(let r = stop (running (exampleConfig False None None) (exampleAdapter False) [exampleSink True])
    in fst r = Resolved
       \<and> effects (snd r) =
           [AdapterStop Rejected, ErrorLog ''Error during adapter cleanup'', SinkClose 0 Resolved]
       \<and> adapter (snd r) = None \<and> isRunning (snd r) = False)"
  by (simp add: ex_defs orch_defs)

theorem delivery_counters_witness:
  "(let s = running (exampleConfig False None None) (exampleAdapter True)
              [exampleSink True, exampleSink False];
        r = notifierRun literalCompiler
              [Incoming (exampleEvent ''e1'' ''users''), Incoming (exampleEvent ''e2'' ''orders'')] s
    in deliveryAttempts (stats (deliverEvent (exampleEvent ''e1'' ''users'') s)) = 1
       \<and> deliveryFailures (stats (deliverEvent (exampleEvent ''e1'' ''users'') s)) = 1
       \<and> deliverySuccesses (stats (deliverEvent (exampleEvent ''e1'' ''users'') s)) = 0
       \<and> length (fanOuts (effects r)) = 2
       \<and> deliveryAttempts (stats r) = 2 \<and> deliveryFailures (stats r) = 2)"
  using delivery_counters [of "exampleEvent ''e1'' ''users''"
      "running (exampleConfig False None None) (exampleAdapter True)
         [exampleSink True, exampleSink False]"
      literalCompiler
      "[Incoming (exampleEvent ''e1'' ''users''), Incoming (exampleEvent ''e2'' ''orders'')]"
      "exampleConfig False None None" "exampleAdapter True"
      "[exampleSink True, exampleSink False]"]
  by (simp add: ex_defs orch_defs)

theorem batch_flush_at_size_witness:
  "(let cfg = exampleConfig True None None;
        s0 = notifierRun literalCompiler [] (running cfg (exampleAdapter True) [exampleSink True]);
        es = exampleEvents 100
    in batchSize cfg = None \<and> batchTimeWindowMs cfg = None
       \<and> eventBuffer s0 = [] \<and> length es = 100 \<and> length (take 99 es) = 99
       \<and> fanOuts (effects (bufferAll es s0)) = [(Batch es, [Resolved])]
       \<and> eventBuffer (bufferAll es s0) = []
       \<and> pending (timeouts (bufferAll es s0)) = []
       \<and> eventBuffer (bufferAll (take 99 es) s0) = take 99 es
       \<and> effects (bufferAll (take 99 es) s0) = []
       \<and> pending (timeouts (bufferAll (take 99 es) s0)) = [(0, 1000)])
   \<and> (let cfg = (exampleConfig True (Some 2) None)\<lparr>batchTimeWindowMs := Some 250\<rparr>;
          s0 = notifierRun literalCompiler [] (running cfg (exampleAdapter True) [exampleSink True]);
          e1 = exampleEvent ''e1'' ''users''; e2 = exampleEvent ''e2'' ''orders''
      in fanOuts (effects (bufferAll [e1, e2] s0)) = [(Batch [e1, e2], [Resolved])]
         \<and> eventBuffer (bufferAll [e1, e2] s0) = []
         \<and> pending (timeouts (bufferAll [e1, e2] s0)) = []
         \<and> eventBuffer (bufferAll [e1] s0) = [e1]
         \<and> pending (timeouts (bufferAll [e1] s0)) = [(0, 250)])"
proof -
  let ?cfg = "exampleConfig True None None"
  let ?s0 = "notifierRun literalCompiler [] (running ?cfg (exampleAdapter True) [exampleSink True])"
  let ?es = "exampleEvents 100"
  have len: "length ?es = 100" "length (take 99 ?es) = 99"
    by (simp_all add: exampleEvents_def)
  have ne: "?es \<noteq> []" "take 99 ?es \<noteq> []"
    using len by auto
  have cfg: "batchSize ?cfg = None" "batchTimeWindowMs ?cfg = None"
    by (simp_all add: exampleConfig_def)
  have s0: "eventBuffer ?s0 = []" "effects ?s0 = []" "timeouts ?s0 = noTimers"
    "deliveryMechanisms ?s0 = [exampleSink True]"
    by (simp_all add: running_def)
  have S: "(100::int) = (case batchSize ?cfg of None \<Rightarrow> 100 | Some n \<Rightarrow> if n = 0 then 100 else n)"
    and W: "(1000::int) = (case batchTimeWindowMs ?cfg of
                None \<Rightarrow> 1000 | Some n \<Rightarrow> if n = 0 then 1000 else n)"
    by (simp_all add: cfg)
  have full: "fanOuts (effects (bufferAll ?es ?s0)) = [(Batch ?es, [Resolved])]
       \<and> eventBuffer (bufferAll ?es ?s0) = []
       \<and> pending (timeouts (bufferAll ?es ?s0)) = []"
    using batch_flush_at_size [OF refl s0(1) S W ne(1)] len(1) s0
    by (simp add: Let_def deliver_def exampleSink_def)
  have below: "eventBuffer (bufferAll (take 99 ?es) ?s0) = take 99 ?es
       \<and> effects (bufferAll (take 99 ?es) ?s0) = []
       \<and> pending (timeouts (bufferAll (take 99 ?es) ?s0)) = [(0, 1000)]"
    using batch_flush_at_size [OF refl s0(1) S W ne(2)] len(2) s0
    by (simp add: Let_def noTimers_def)
  let ?cfg2 = "(exampleConfig True (Some 2) None)\<lparr>batchTimeWindowMs := Some 250\<rparr>"
  let ?t0 = "notifierRun literalCompiler [] (running ?cfg2 (exampleAdapter True) [exampleSink True])"
  have small: "fanOuts (effects (bufferAll [exampleEvent ''e1'' ''users'', exampleEvent ''e2'' ''orders''] ?t0))
         = [(Batch [exampleEvent ''e1'' ''users'', exampleEvent ''e2'' ''orders''], [Resolved])]
       \<and> eventBuffer (bufferAll [exampleEvent ''e1'' ''users'', exampleEvent ''e2'' ''orders''] ?t0) = []
       \<and> pending (timeouts (bufferAll [exampleEvent ''e1'' ''users'', exampleEvent ''e2'' ''orders''] ?t0)) = []
       \<and> eventBuffer (bufferAll [exampleEvent ''e1'' ''users''] ?t0) = [exampleEvent ''e1'' ''users'']
       \<and> pending (timeouts (bufferAll [exampleEvent ''e1'' ''users''] ?t0)) = [(0, 250)]"
    by (simp add: ex_defs orch_defs)
  show ?thesis
    unfolding Let_def using cfg s0(1) len full below small by blast
qed

section \<open>Properties of the PostgreSQL adapter\<close>

lemmas adp_defs = getTableList_def selectTables_def getTableListQuery_def baseQuery_def
  digitChars_def parseQuery_def parseArray_def isDigit_def numberOfDigits_def digitValue_def
  exampleCatalog_def noFilter_def newAdapter_def triggerOn_def exampleDatabase_def
  setupChangeNotifications_def setupTransaction_def query_def changeTriggers_def
  buildTriggerSQL_def teardownChangeNotifications_def teardownTransaction_def Let_def

lemmas parse_defs = baseQuery_def digitChars_def parseQuery_def parseArray_def isDigit_def
  numberOfDigits_def digitValue_def Let_def

lemma parse_base: "parseQuery baseQuery = Some []"
  by (simp add: parse_defs)

lemma parse_include:
  "parseQuery (baseQuery @ '' AND table_name = ANY($2::text[])'') = Some [NameAny (Parameter 2)]"
  by (simp add: parse_defs)

lemma parse_exclude:
  "parseQuery (baseQuery @ '' AND table_name != ALL(2::text[])'') = Some [NameNotAll (IntegerCast 2)]"
  by (simp add: parse_defs)

lemma parse_include_exclude:
  "parseQuery (baseQuery @ '' AND table_name = ANY($2::text[])'' @ '' AND table_name != ALL(3::text[])'')
     = Some [NameAny (Parameter 2), NameNotAll (IntegerCast 3)]"
  by (simp add: parse_defs)

lemma decimal_2: "decimal (Suc (Suc 0)) = ''2''" and decimal_3: "decimal (Suc (Suc (Suc 0))) = ''3''"
  by (simp_all add: digitChars_def)

lemma getTableList_exclude_fails:
  assumes "excludeTables tableFilter = Some exc" and "exc \<noteq> []"
  shows "getTableList cat tableFilter = Inl CannotCastIntegerToTextArray"
proof (cases "includeTables tableFilter")
  case None
  then show ?thesis using assms parse_exclude
    by (simp add: getTableList_def getTableListQuery_def selectTables_def decimal_2 del: decimal.simps)
next
  case (Some inc)
  show ?thesis
  proof (cases "inc = []")
    case True
    then show ?thesis using assms Some parse_exclude
      by (simp add: getTableList_def getTableListQuery_def selectTables_def decimal_2 del: decimal.simps)
  next
    case False
    then show ?thesis using assms Some parse_include_exclude
      by (simp add: getTableList_def getTableListQuery_def selectTables_def decimal_3 del: decimal.simps)
  qed
qed

lemma getTableList_without_exclude:
  assumes "excludeTables tableFilter = None \<or> excludeTables tableFilter = Some []"
  shows "\<exists>tables. getTableList cat tableFilter = Inr tables
           \<and> set tables = resolvedTables cat tableFilter"
proof (cases "includeTables tableFilter = None \<or> includeTables tableFilter = Some []")
  case True
  have "getTableListQuery tableFilter =
      (baseQuery, [case schemas tableFilter of None \<Rightarrow> [''public''] | Some xs \<Rightarrow> xs])"
    using assms True by (auto simp: getTableListQuery_def)
  then show ?thesis using assms True parse_base
    by (auto simp: getTableList_def selectTables_def resolvedTables_def)
next
  case False
  then obtain inc where inc: "includeTables tableFilter = Some inc" "inc \<noteq> []" by auto
  have "getTableListQuery tableFilter =
      (baseQuery @ '' AND table_name = ANY($2::text[])'',
       [case schemas tableFilter of None \<Rightarrow> [''public''] | Some xs \<Rightarrow> xs, inc])"
    using assms inc by (auto simp: getTableListQuery_def)
  then show ?thesis using assms inc parse_include
    by (auto simp: getTableList_def selectTables_def resolvedTables_def)
qed

lemma resolved_example:
  "resolvedTables exampleCatalog (noFilter\<lparr>excludeTables := Some [''logs'']\<rparr>)
     = {(''public'', ''users'')}"
proof -
  have "(''public'', ''users'')
          \<in> resolvedTables exampleCatalog (noFilter\<lparr>excludeTables := Some [''logs'']\<rparr>)"
    unfolding resolvedTables_def exampleCatalog_def noFilter_def
    by (simp, intro exI[of _ "\<lparr>table_schema = ''public'', table_name = ''users'',
                               table_type = ''BASE TABLE''\<rparr>"]) simp
  moreover have "resolvedTables exampleCatalog (noFilter\<lparr>excludeTables := Some [''logs'']\<rparr>)
          \<subseteq> {(''public'', ''users'')}"
    by (auto simp: resolvedTables_def exampleCatalog_def noFilter_def)
  ultimately show ?thesis by blast
qed

text \<open>
  Claim C1, at an input where the code departs from it. The filter excludes the table
  \<^verbatim>\<open>logs\<close>. The query text ends in \<^verbatim>\<open>AND table_name != ALL(2::text[])\<close>, the
  database rejects it, and \<^verbatim>\<open>getTableList\<close> rejects, where the claim gives the table
  \<^verbatim>\<open>public.users\<close>. (Every filter with a non-empty \<^verbatim>\<open>exclude\<close> is rejected so,
  \<open>getTableList_exclude_fails\<close>; without one the result is the claim's set,
  \<open>getTableList_without_exclude\<close>.)
\<close>

theorem exclude_filter_rejected:
  "getTableList exampleCatalog (noFilter\<lparr>excludeTables := Some [''logs'']\<rparr>)
     = Inl CannotCastIntegerToTextArray
   \<and> resolvedTables exampleCatalog (noFilter\<lparr>excludeTables := Some [''logs'']\<rparr>)
     = {(''public'', ''users'')}"
  using resolved_example by (simp add: adp_defs)

lemma exclude_filter_text:
  "fst (getTableListQuery (noFilter\<lparr>excludeTables := Some [''logs'']\<rparr>))
     = baseQuery @ '' AND table_name != ALL(2::text[])''"
  by (simp add: adp_defs)

lemma query_frame:
  assumes "query st db = (r, db')"
  shows "refuses db' = refuses db \<and> poolConnects db' = poolConnects db \<and> catalog db' = catalog db"
  using assms
  by (auto simp: query_def changeTriggers_def split: if_splits statement.splits option.splits)

lemma query_in_transaction:
  assumes "query st db = (r, db')" and "transaction db \<noteq> None" and "st \<noteq> Commit" and "st \<noteq> Rollback"
  shows "installed db' = installed db \<and> transaction db' \<noteq> None"
  using assms
  by (auto simp: query_def changeTriggers_def split: if_splits statement.splits option.splits)

lemma query_refused:
  "query st db = (Inl e, db') \<Longrightarrow> st \<noteq> SelectTables q ps \<Longrightarrow> (\<forall>q ps. st \<noteq> SelectTables q ps) \<Longrightarrow> db' = db"
  by (auto simp: query_def split: if_splits statement.splits option.splits)

lemma query_Inl_same:
  "query st db = (Inl e, db') \<Longrightarrow> db' = db"
  by (auto simp: query_def split: if_splits statement.splits option.splits)

lemma createTriggers_frame:
  assumes "createTriggers tbls a db = (r, a', db')" and "transaction db \<noteq> None"
  shows "installed db' = installed db \<and> transaction db' \<noteq> None
         \<and> initialized a' = initialized a \<and> refuses db' = refuses db"
  using assms
proof (induction tbls arbitrary: a db)
  case Nil
  then show ?case by simp
next
  case (Cons t tbls)
  obtain sch nm where t: "t = (sch, nm)" by (cases t)
  let ?name = "''db_change_notify_'' @ sch @ ''_'' @ nm"
  show ?case
  proof (cases "buildTriggerSQL ?name sch nm ''notify_db_changes'' [''INSERT'', ''UPDATE'', ''DELETE'']")
    case (Inl e)
    with Cons.prems t show ?thesis by (simp add: Let_def)
  next
    case (Inr stmt)
    then have stmt: "stmt \<noteq> Commit" "stmt \<noteq> Rollback"
      by (auto simp: buildTriggerSQL_def split: if_splits)
    obtain qr db1 where q: "query stmt db = (qr, db1)" by (cases "query stmt db")
    from query_in_transaction[OF q Cons.prems(2) stmt] query_frame[OF q]
    have f: "installed db1 = installed db" "transaction db1 \<noteq> None" "refuses db1 = refuses db"
      by simp_all
    show ?thesis
    proof (cases qr)
      case (Inl e)
      with Cons.prems(1) t Inr q f show ?thesis by (auto simp: Let_def)
    next
      case (Inr rows)
      with Cons.prems(1) t \<open>buildTriggerSQL ?name sch nm ''notify_db_changes'' [''INSERT'', ''UPDATE'', ''DELETE''] = Inr stmt\<close> q
      have "createTriggers tbls
              (a\<lparr>triggers := triggers a @ [\<lparr>triggerName = ?name, triggerTable = nm, triggerSchema = sch\<rparr>]\<rparr>)
              db1 = (r, a', db')"
        by (simp add: Let_def)
      from Cons.IH[OF this f(2)] f show ?thesis by simp
    qed
  qed
qed

lemma setupTransaction_failure:
  assumes "setupTransaction tableFilter a db = (Some e, a', db')"
  shows "installed db' = installed db \<and> initialized a' = initialized a \<and> refuses db' = refuses db"
proof -
  obtain r1 db1 where q1: "query Begin db = (r1, db1)" by (cases "query Begin db")
  show ?thesis
  proof (cases r1)
    case (Inl e1)
    with assms q1 query_Inl_same[of Begin db e1 db1] show ?thesis
      by (simp add: setupTransaction_def)
  next
    case (Inr rows1)
    with q1 have t1: "transaction db1 \<noteq> None" "installed db1 = installed db" "refuses db1 = refuses db"
      by (auto simp: query_def split: if_splits)
    obtain r2 db2 where q2: "query CreateNotifyFunction db1 = (r2, db2)"
      by (cases "query CreateNotifyFunction db1")
    from query_in_transaction[OF q2 t1(1)] query_frame[OF q2] t1
    have t2: "transaction db2 \<noteq> None" "installed db2 = installed db" "refuses db2 = refuses db"
      by simp_all
    show ?thesis
    proof (cases r2)
      case (Inl e2)
      with assms q1 q2 Inr t2 show ?thesis by (simp add: setupTransaction_def)
    next
      case r2: (Inr rows2)
      obtain qt ps where g: "getTableListQuery tableFilter = (qt, ps)"
        by (cases "getTableListQuery tableFilter")
      obtain r3 db3 where q3: "query (SelectTables qt ps) db2 = (r3, db3)"
        by (cases "query (SelectTables qt ps) db2")
      from query_in_transaction[OF q3 t2(1)] query_frame[OF q3] t2
      have t3: "transaction db3 \<noteq> None" "installed db3 = installed db" "refuses db3 = refuses db"
        by simp_all
      show ?thesis
      proof (cases r3)
        case (Inl e3)
        with assms q1 q2 q3 Inr r2 g t3 show ?thesis by (simp add: setupTransaction_def)
      next
        case r3: (Inr rows3)
        obtain r4 a4 db4 where c: "createTriggers (map (\<lambda>row. (table_schema row, table_name row)) rows3) a db3 = (r4, a4, db4)"
          by (cases "createTriggers (map (\<lambda>row. (table_schema row, table_name row)) rows3) a db3") auto
        from createTriggers_frame[OF c t3(1)] t3
        have t4: "installed db4 = installed db" "initialized a4 = initialized a" "refuses db4 = refuses db"
          by simp_all
        show ?thesis
        proof (cases r4)
          case (Some e4)
          with assms q1 q2 q3 Inr r2 r3 g c t4 show ?thesis by (simp add: setupTransaction_def)
        next
          case None
          obtain r5 db5 where q5: "query Commit db4 = (r5, db5)" by (cases "query Commit db4")
          show ?thesis
          proof (cases r5)
            case (Inl e5)
            with assms q1 q2 q3 Inr r2 r3 g c None q5 t4 query_Inl_same[of Commit db4 e5 db5]
            show ?thesis by (simp add: setupTransaction_def)
          next
            case r5: (Inr rows5)
            with assms q1 q2 q3 Inr r2 r3 g c None q5 show ?thesis
              by (simp add: setupTransaction_def)
          qed
        qed
      qed
    qed
  qed
qed

lemma setup_failure_rolls_back:
  assumes "setupChangeNotifications tableFilter a db = (Some rejection, a', db')"
    and "\<not> refuses db Rollback"
  shows "installed db' = installed db \<and> initialized a' = initialized a
         \<and> (poolConnects db \<longrightarrow> rejection = DBChangeError \<and> transaction db' = None)"
proof (cases "initialized a \<or> \<not> poolConnects db")
  case True
  with assms show ?thesis by (auto simp: setupChangeNotifications_def split: if_splits)
next
  case False
  obtain r1 a1 db1 where s: "setupTransaction tableFilter a db = (r1, a1, db1)"
    by (cases "setupTransaction tableFilter a db") auto
  with assms(1) False obtain e where e: "r1 = Some e"
    by (cases r1) (auto simp: setupChangeNotifications_def)
  from setupTransaction_failure[OF s[unfolded e]] assms(2)
  have f: "installed db1 = installed db" "initialized a1 = initialized a" "\<not> refuses db1 Rollback"
    by simp_all
  then have "query Rollback db1 = (Inr [], db1\<lparr>transaction := None\<rparr>)"
    by (simp add: query_def)
  with assms(1) False s e f show ?thesis
    by (auto simp: setupChangeNotifications_def)
qed

text \<open>
  Claim C2, at an input where the code departs from it. The catalog has the base tables
  \<^verbatim>\<open>public.users\<close> and \<^verbatim>\<open>public.logs\<close>; the database refuses the trigger on
  \<^verbatim>\<open>public.logs\<close>. \<^verbatim>\<open>setupChangeNotifications\<close> rejects with the wrapping error, the
  transaction is rolled back and no trigger is installed, \<^verbatim>\<open>initialized\<close> stays false;
  but \<^verbatim>\<open>triggers\<close>, empty before the call, now holds the record pushed for
  \<^verbatim>\<open>public.users\<close>. (Whenever the setup fails and the rollback is accepted, the
  installed triggers and \<^verbatim>\<open>initialized\<close> are as before: \<open>setup_failure_rolls_back\<close>.)
\<close>

theorem setup_failure_keeps_trigger_records:
  "(let (rejected, a, db) =
          setupChangeNotifications noFilter newAdapter
            (exampleDatabase [] [CreateTrigger (triggerOn ''public'' ''logs'')])
    in rejected = Some DBChangeError \<and> installed db = [] \<and> transaction db = None
       \<and> initialized a = False \<and> triggers newAdapter = []
       \<and> triggers a = [triggerOn ''public'' ''users''])"
  by (simp add: adp_defs)

text \<open>
  What the stale record does later. Another instance has installed the trigger on
  \<^verbatim>\<open>public.users\<close>. This instance's setup fails as above; its second setup, for
  \<^verbatim>\<open>logs\<close> alone, succeeds; its teardown then drops the trigger on
  \<^verbatim>\<open>public.users\<close> too, which it never installed.
\<close>

lemma stale_record_drops_foreign_trigger:
  "(let db0 = exampleDatabase [triggerOn ''public'' ''users'']
                [CreateTrigger (triggerOn ''public'' ''logs'')];
        (r1, a1, db1) = setupChangeNotifications noFilter newAdapter db0;
        (r2, a2, db2) = setupChangeNotifications (noFilter\<lparr>includeTables := Some [''logs'']\<rparr>)
                          a1 (db1\<lparr>refuses := (\<lambda>st. False)\<rparr>);
        (r3, a3, db3) = teardownChangeNotifications a2 db2
    in r1 = Some DBChangeError \<and> r2 = None \<and> r3 = None
       \<and> installed db1 = [triggerOn ''public'' ''users'']
       \<and> installed db2 = [triggerOn ''public'' ''users'', triggerOn ''public'' ''logs'']
       \<and> triggers a2 = [triggerOn ''public'' ''users'', triggerOn ''public'' ''logs'']
       \<and> installed db3 = [])"
  by (simp add: adp_defs)

lemma getProp_obj_cases:
  "getProp d k = Inr v \<Longrightarrow> d \<noteq> JUndefined \<and> d \<noteq> JNull"
  by (cases d) auto

lemma getProp_total: "d \<noteq> JUndefined \<Longrightarrow> d \<noteq> JNull \<Longrightarrow> \<exists>v. getProp d k = Inr v"
  by (cases d) auto

lemma dateISOString_cases:
  "dateISOString rt v = Inl RangeError \<or> (\<exists>s. dateISOString rt v = Inr s)"
  by (auto simp: dateISOString_def Let_def split: option.splits jsval.splits)

lemma getOptional_supplied:
  assumes "getProp d ''data'' = Inr dd"
  shows "\<exists>v. getOptional dd k = Inr v
           \<and> orElse v JNull = (case supplied d k of
                                  Some w \<Rightarrow> if truthy w then w else JNull
                                | None \<Rightarrow> JNull)"
proof (cases d)
  case (JObj props)
  show ?thesis
  proof (cases "map_of props ''data''")
    case None
    with JObj assms show ?thesis by (auto simp: supplied_def orElse_def)
  next
    case (Some x)
    with JObj assms have dd: "dd = x" by simp
    show ?thesis
      using JObj Some dd
      by (cases x) (auto simp: supplied_def orElse_def split: option.splits)
  qed
qed (use assms in \<open>auto simp: supplied_def orElse_def\<close>)

lemma orElse_defined: "orElse v JNull \<noteq> JUndefined"
  by (cases v) (auto simp: orElse_def)

lemma buildEvent_data:
  assumes "buildEvent rt dbName d = Inr ev"
  shows "data_new ev = (case supplied d ''new'' of
                          Some w \<Rightarrow> if truthy w then w else JNull | None \<Rightarrow> JNull)
       \<and> data_old ev = (case supplied d ''old'' of
                          Some w \<Rightarrow> if truthy w then w else JNull | None \<Rightarrow> JNull)
       \<and> data_new ev \<noteq> JUndefined \<and> data_old ev \<noteq> JUndefined"
proof -
  from assms obtain dd where dd: "getProp d ''data'' = Inr dd"
    by (auto simp: buildEvent_def split: sum.splits)
  from getOptional_supplied[OF dd, of "''new''"] obtain nv where
    nv: "getOptional dd ''new'' = Inr nv"
      "orElse nv JNull = (case supplied d ''new'' of Some w \<Rightarrow> if truthy w then w else JNull | None \<Rightarrow> JNull)"
    by blast
  from getOptional_supplied[OF dd, of "''old''"] obtain ov where
    ov: "getOptional dd ''old'' = Inr ov"
      "orElse ov JNull = (case supplied d ''old'' of Some w \<Rightarrow> if truthy w then w else JNull | None \<Rightarrow> JNull)"
    by blast
  from assms dd nv(1) ov(1) have "data_new ev = orElse nv JNull" "data_old ev = orElse ov JNull"
    by (auto simp: buildEvent_def split: sum.splits)
  with nv(2) ov(2) show ?thesis using orElse_defined by metis
qed

lemma buildEvent_operation:
  assumes "buildEvent rt dbName d = Inr ev" and "getProp d ''operation'' = Inr v"
  shows "mapOperationType v = Inr (operation ev)"
  using assms by (auto simp: buildEvent_def split: sum.splits)

lemma builtEvent_handle:
  "builtEvent (handleNotification rt a p) = Some ev \<Longrightarrow>
   \<exists>d. jsonParse rt p = Some d \<and> buildEvent rt (configDatabase a) d = Inr ev"
  by (auto simp: builtEvent_def handleNotification_def emitChangeEvent_def
      split: option.splits sum.splits if_splits outcome.splits)

lemma handle_built:
  "jsonParse rt p = Some d \<Longrightarrow> buildEvent rt (configDatabase a) d = Inr ev \<Longrightarrow>
   builtEvent (handleNotification rt a p) = Some ev"
  by (auto simp: builtEvent_def handleNotification_def emitChangeEvent_def
      split: option.splits sum.splits if_splits outcome.splits)

lemma mapOperationType_unknown:
  "\<not> recognized keyword \<Longrightarrow> mapOperationType (JStr keyword) = Inr UNKNOWN"
  by (simp add: mapOperationType_def recognized_def Let_def)

lemma buildEvent_succeeds:
  assumes "getProp d ''operation'' = Inr (JStr keyword)"
    and "getProp d ''timestamp'' = Inr ts"
    and "\<not> (truthy ts \<and> dateISOString rt ts = Inl RangeError)"
  shows "\<exists>ev. buildEvent rt dbName d = Inr ev"
proof -
  from getProp_obj_cases[OF assms(1)] have nn: "d \<noteq> JUndefined" "d \<noteq> JNull" by simp_all
  obtain idv tbl sch dd where g: "getProp d ''id'' = Inr idv" "getProp d ''table'' = Inr tbl"
      "getProp d ''schema'' = Inr sch" "getProp d ''data'' = Inr dd"
    using getProp_total[OF nn] by metis
  obtain nv ov where o: "getOptional dd ''new'' = Inr nv" "getOptional dd ''old'' = Inr ov"
    using getOptional_supplied[OF g(4)] by metis
  obtain iso where iso: "(if truthy ts then dateISOString rt ts else Inr (nowISOString rt)) = Inr iso"
    using assms(3) dateISOString_cases[of rt ts] by (cases "truthy ts") auto
  obtain op where op: "mapOperationType (JStr keyword) = Inr op"
    by (simp add: mapOperationType_def Let_def)
  show ?thesis
    using g o iso op assms(1,2) by (simp add: buildEvent_def)
qed

lemma buildEvent_bad_timestamp:
  assumes "getProp d ''timestamp'' = Inr ts" and "truthy ts" and "dateISOString rt ts = Inl RangeError"
  shows "buildEvent rt dbName d = Inl RangeError"
proof -
  from getProp_obj_cases[OF assms(1)] have nn: "d \<noteq> JUndefined" "d \<noteq> JNull" by simp_all
  obtain idv where "getProp d ''id'' = Inr idv" using getProp_total[OF nn] by metis
  then show ?thesis using assms by (simp add: buildEvent_def)
qed

text \<open>
  Claim C7, as amended. For every payload text \<^verbatim>\<open>handleNotification\<close> returns and lets
  no error escape. A text that does not parse is logged as a \<^verbatim>\<open>SyntaxError\<close> and no
  event is built. For a parsed payload whose \<^verbatim>\<open>operation\<close> is a string that is none of
  insert, update, delete and truncate in any letter case, \<^verbatim>\<open>mapOperationType\<close> gives
  \<^verbatim>\<open>unknown\<close>; the event is built with that operation when the payload's timestamp is
  falsy or converts to a date, and otherwise the \<^verbatim>\<open>RangeError\<close> of the conversion is
  logged and no event is built.
\<close>

theorem payload_handler_total:
  "(\<exists>r. handleNotification rt a payloadText = Inr r)
   \<and> (jsonParse rt payloadText = None \<longrightarrow>
        handleNotification rt a payloadText = Inr (Logged SyntaxError None))
   \<and> (\<forall>d keyword ts.
        jsonParse rt payloadText = Some d \<and> getProp d ''operation'' = Inr (JStr keyword)
        \<and> \<not> recognized keyword \<and> getProp d ''timestamp'' = Inr ts \<longrightarrow>
          mapOperationType (JStr keyword) = Inr UNKNOWN
          \<and> (if truthy ts \<and> dateISOString rt ts = Inl RangeError
              then handleNotification rt a payloadText = Inr (Logged RangeError None)
              else (\<exists>ev. builtEvent (handleNotification rt a payloadText) = Some ev
                         \<and> operation ev = UNKNOWN)))"
proof (intro conjI allI impI)
  show "\<exists>r. handleNotification rt a payloadText = Inr r"
    by (auto simp: handleNotification_def split: option.splits sum.splits prod.splits)
next
  assume "jsonParse rt payloadText = None"
  then show "handleNotification rt a payloadText = Inr (Logged SyntaxError None)"
    by (simp add: handleNotification_def)
next
  fix d keyword ts
  assume h: "jsonParse rt payloadText = Some d \<and> getProp d ''operation'' = Inr (JStr keyword)
        \<and> \<not> recognized keyword \<and> getProp d ''timestamp'' = Inr ts"
  then show "mapOperationType (JStr keyword) = Inr UNKNOWN"
    by (simp add: mapOperationType_unknown)
  show "if truthy ts \<and> dateISOString rt ts = Inl RangeError
        then handleNotification rt a payloadText = Inr (Logged RangeError None)
        else (\<exists>ev. builtEvent (handleNotification rt a payloadText) = Some ev \<and> operation ev = UNKNOWN)"
  proof (cases "truthy ts \<and> dateISOString rt ts = Inl RangeError")
    case True
    with h have "buildEvent rt (configDatabase a) d = Inl RangeError"
      using buildEvent_bad_timestamp by blast
    with h True show ?thesis by (simp add: handleNotification_def)
  next
    case False
    with h obtain ev where ev: "buildEvent rt (configDatabase a) d = Inr ev"
      using buildEvent_succeeds by blast
    from buildEvent_operation[OF ev] h have "operation ev = UNKNOWN"
      using mapOperationType_unknown by fastforce
    with handle_built[OF _ ev] h False show ?thesis by auto
  qed
qed

text \<open>
  Claim C10. Every event \<^verbatim>\<open>handleNotification\<close> builds comes from a parsed payload
  and has both \<^verbatim>\<open>data.new\<close> and \<^verbatim>\<open>data.old\<close>: each is the value the payload
  supplies when there is one and it is truthy, and \<^verbatim>\<open>null\<close> otherwise; neither is
  ever left undefined.
\<close>

theorem event_data_fields_present:
  "(case builtEvent (handleNotification rt a payloadText) of
      None \<Rightarrow> True
    | Some ev \<Rightarrow>
        (\<exists>d. jsonParse rt payloadText = Some d
           \<and> data_new ev = (case supplied d ''new'' of
                              Some w \<Rightarrow> if truthy w then w else JNull | None \<Rightarrow> JNull)
           \<and> data_old ev = (case supplied d ''old'' of
                              Some w \<Rightarrow> if truthy w then w else JNull | None \<Rightarrow> JNull))
        \<and> data_new ev \<noteq> JUndefined \<and> data_old ev \<noteq> JUndefined)"
proof (cases "builtEvent (handleNotification rt a payloadText)")
  case None
  then show ?thesis by simp
next
  case (Some ev)
  from builtEvent_handle[OF Some] obtain d where
    d: "jsonParse rt payloadText = Some d" "buildEvent rt (configDatabase a) d = Inr ev" by blast
  from buildEvent_data[OF d(2)] d(1) Some show ?thesis by auto
qed

lemmas hn_defs = quoted_def mergePayload_def copyPayload_def insertPayload_def exampleRuntime_def
  listeningAdapter_def handleNotification_def buildEvent_def emitChangeEvent_def
  mapOperationType_def toLowerCase_def lowerChar_def recognized_def dateISOString_def
  orElse_def builtEvent_def supplied_def Let_def

text \<open>
  Claim C7 as stated fails at the payload
  \<^verbatim>\<open>{"operation":"merge","timestamp":1e20}\<close>: it parses and its operation keyword
  is not a recognized one, but \<^verbatim>\<open>new Date(1e23)\<close> is an invalid date,
  \<^verbatim>\<open>toISOString()\<close> throws, and the handler logs the error and builds no event.
\<close>

theorem unknown_operation_dropped:
  "jsonParse exampleRuntime mergePayload
     = Some (JObj [(''operation'', JStr ''merge''), (''timestamp'', JNum 100000000000000000000)])
   \<and> \<not> recognized ''merge''
   \<and> handleNotification exampleRuntime listeningAdapter mergePayload
       = Inr (Logged RangeError None)
   \<and> builtEvent (handleNotification exampleRuntime listeningAdapter mergePayload) = None"
  by (simp add: hn_defs)

theorem payload_handler_total_witness:
  "jsonParse exampleRuntime copyPayload = Some (JObj [(''operation'', JStr ''COPY'')])
   \<and> getProp (JObj [(''operation'', JStr ''COPY'')]) ''operation'' = Inr (JStr ''COPY'')
   \<and> \<not> recognized ''COPY''
   \<and> getProp (JObj [(''operation'', JStr ''COPY'')]) ''timestamp'' = Inr JUndefined
   \<and> jsonParse exampleRuntime ''not json'' = None
   \<and> handleNotification exampleRuntime listeningAdapter ''not json'' = Inr (Logged SyntaxError None)
   \<and> (\<exists>ev. builtEvent (handleNotification exampleRuntime listeningAdapter copyPayload) = Some ev
            \<and> operation ev = UNKNOWN)"
  using payload_handler_total [where rt = exampleRuntime and a = listeningAdapter
        and payloadText = copyPayload]
    payload_handler_total [where rt = exampleRuntime and a = listeningAdapter
        and payloadText = "''not json''"]
  by (simp add: hn_defs)

theorem event_data_fields_present_witness:
  "builtEvent (handleNotification exampleRuntime listeningAdapter insertPayload)
     = Some \<lparr>ev_id = JStr ''3f0e8c1a-uuid'', timestamp = ''2023-11-14T22:13:20.000Z'',
             operation = INSERT, database_name = ''demo_db'', source_table = JStr ''users'',
             source_schema = None, data_new = JObj [(''id'', JNum 1)], data_old = JNull\<rparr>"
  using event_data_fields_present [where rt = exampleRuntime and a = listeningAdapter
        and payloadText = insertPayload]
  by (simp add: hn_defs)

end
